theory Spec2Isabelle
  imports Complex_Main "HOL-Library.Word"
begin

unbundle bit_operations_syntax

chapter \<open>The genetic Minesweeper trainer (agente\_genetico/main.cpp)\<close>

section \<open>Constants and random numbers\<close>

text \<open>
  The board and the genetic algorithm are sized by compile-time constants. A C++ \<open>int\<close> that is
  written to or read from a file is a 32-bit word; counters that stay small are integers.
\<close>

definition GRID_WIDTH :: int where "GRID_WIDTH = 10"
definition GRID_HEIGHT :: int where "GRID_HEIGHT = 10"
definition NUM_MINES :: int where "NUM_MINES = 15"
definition POPULATION_SIZE :: nat where "POPULATION_SIZE = 300"
definition NUM_RULES :: nat where "NUM_RULES = 150"

type_synonym cint = "32 word"
type_synonym byte = "8 word"

text \<open>
  The global generator \<open>gen_global\<close> is a sequence of raw draws \<open>rnd\<close> and a position \<open>k\<close> in it;
  every function that draws returns the advanced position. A call
  \<open>std::uniform_int_distribution<>(a, b)(gen_global)\<close> maps one raw draw into \<open>[a, b]\<close>; every value of
  the range is the image of some draw.
\<close>

type_synonym rng = "nat \<Rightarrow> nat"

definition uniform_int_distribution :: "rng \<Rightarrow> nat \<Rightarrow> nat \<Rightarrow> nat \<Rightarrow> nat" where
  "uniform_int_distribution rnd k a b = a + rnd k mod (b - a + 1)"

section \<open>Rules and individuals\<close>

text \<open>
  \<open>RuleAction\<close> is an unscoped enumeration: it is stored in a rule, written to the checkpoint and read
  back as its underlying \<open>int\<close>, and \<open>applyRules\<close> compares it with the two enumerators and does
  nothing for any other value. The field therefore holds the integer, and the enumerators are constants.
  The fitness of an individual is a \<open>double\<close>; the checkpoint copies its eight bytes, so the field
  holds the 64-bit pattern.
\<close>

definition ACTION_REVEAL_HIDDEN :: cint where "ACTION_REVEAL_HIDDEN = 0"
definition ACTION_PLACE_FLAG :: cint where "ACTION_PLACE_FLAG = 1"

record Rule =
  numberCondition :: cint
  hiddenCondition :: cint
  flaggedCondition :: cint
  nearEdge :: bool
  hasSpecificPattern :: bool
  extendedScope :: cint
  priority :: cint
  action :: cint

record Individual =
  rules :: "Rule list"
  fitness :: "64 word"

text \<open>A value-initialised \<open>Rule\<close>, as \<open>std::vector::resize\<close> appends it, and \<open>Individual()\<close>.\<close>

definition zeroRule :: Rule where
  "zeroRule = \<lparr>numberCondition = 0, hiddenCondition = 0, flaggedCondition = 0, nearEdge = False,
     hasSpecificPattern = False, extendedScope = 0, priority = 0, action = 0\<rparr>"

definition newIndividual :: Individual where
  "newIndividual = \<lparr>rules = [], fitness = 0\<rparr>"

definition resize :: "nat \<Rightarrow> 'a \<Rightarrow> 'a list \<Rightarrow> 'a list" where
  "resize n d xs = take n xs @ replicate (n - length xs) d"

text \<open>\<open>createRandomIndividual\<close>: eight draws per rule, in the order of the source.\<close>

definition randomRule :: "rng \<Rightarrow> nat \<Rightarrow> Rule" where
  "randomRule rnd k =
     \<lparr>numberCondition = word_of_nat (uniform_int_distribution rnd k 0 8),
      hiddenCondition = word_of_nat (uniform_int_distribution rnd (k + 1) 0 8),
      flaggedCondition = word_of_nat (uniform_int_distribution rnd (k + 2) 0 8),
      nearEdge = (uniform_int_distribution rnd (k + 3) 0 1 \<noteq> 0),
      hasSpecificPattern = (uniform_int_distribution rnd (k + 4) 0 1 \<noteq> 0),
      extendedScope = word_of_nat (uniform_int_distribution rnd (k + 5) 1 2),
      priority = word_of_nat (uniform_int_distribution rnd (k + 6) 1 10),
      action = (if uniform_int_distribution rnd (k + 7) 0 1 = 0
                then ACTION_REVEAL_HIDDEN else ACTION_PLACE_FLAG)\<rparr>"

definition createRandomIndividual :: "rng \<Rightarrow> nat \<Rightarrow> Individual \<times> nat" where
  "createRandomIndividual rnd k =
     (\<lparr>rules = map (\<lambda>i. randomRule rnd (k + 8 * i)) [0..<NUM_RULES], fitness = 0\<rparr>,
      k + 8 * NUM_RULES)"

section \<open>The population checkpoint\<close>

text \<open>
  \<open>ofs.write\<close> and \<open>ifs.read\<close> copy the bytes of an object. An \<open>int\<close> and the enumeration are four
  bytes, a \<open>bool\<close> is one byte, a \<open>double\<close> is eight bytes; the least significant byte comes first.
\<close>

definition intBytes :: "cint \<Rightarrow> byte list" where
  "intBytes w = [ucast w, ucast (drop_bit 8 w), ucast (drop_bit 16 w), ucast (drop_bit 24 w)]"

definition bytesInt :: "byte list \<Rightarrow> cint" where
  "bytesInt bs = ucast (bs ! 0) OR push_bit 8 (ucast (bs ! 1)) OR push_bit 16 (ucast (bs ! 2))
     OR push_bit 24 (ucast (bs ! 3))"

definition doubleBytes :: "64 word \<Rightarrow> byte list" where
  "doubleBytes w = [ucast w, ucast (drop_bit 8 w), ucast (drop_bit 16 w), ucast (drop_bit 24 w),
     ucast (drop_bit 32 w), ucast (drop_bit 40 w), ucast (drop_bit 48 w), ucast (drop_bit 56 w)]"

definition bytesDouble :: "byte list \<Rightarrow> 64 word" where
  "bytesDouble bs = ucast (bs ! 0) OR push_bit 8 (ucast (bs ! 1)) OR push_bit 16 (ucast (bs ! 2))
     OR push_bit 24 (ucast (bs ! 3)) OR push_bit 32 (ucast (bs ! 4)) OR push_bit 40 (ucast (bs ! 5))
     OR push_bit 48 (ucast (bs ! 6)) OR push_bit 56 (ucast (bs ! 7))"

definition boolBytes :: "bool \<Rightarrow> byte list" where
  "boolBytes b = [if b then 1 else 0]"

definition bytesBool :: "byte list \<Rightarrow> bool" where
  "bytesBool bs = (bs ! 0 \<noteq> 0)"

text \<open>
  An input stream is the bytes not yet read and the fail bit. \<open>ifs.read(p, n)\<close> does nothing once the
  fail bit is set; with fewer than \<open>n\<close> bytes left it stores the bytes there are over the first bytes of
  the object and sets the fail bit.
\<close>

record istream =
  buf :: "byte list"
  failbit :: bool

definition readBytes :: "nat \<Rightarrow> byte list \<Rightarrow> istream \<Rightarrow> byte list \<times> istream" where
  "readBytes n old s =
     (if failbit s then (old, s)
      else if n \<le> length (buf s) then (take n (buf s), s\<lparr>buf := drop n (buf s)\<rparr>)
      else (buf s @ drop (length (buf s)) old, s\<lparr>buf := [], failbit := True\<rparr>))"

definition readInt :: "cint \<Rightarrow> istream \<Rightarrow> cint \<times> istream" where
  "readInt old s = (let (bs, s') = readBytes 4 (intBytes old) s in (bytesInt bs, s'))"

definition readBool :: "bool \<Rightarrow> istream \<Rightarrow> bool \<times> istream" where
  "readBool old s = (let (bs, s') = readBytes 1 (boolBytes old) s in (bytesBool bs, s'))"

definition readDouble :: "64 word \<Rightarrow> istream \<Rightarrow> 64 word \<times> istream" where
  "readDouble old s = (let (bs, s') = readBytes 8 (doubleBytes old) s in (bytesDouble bs, s'))"

definition readRule :: "Rule \<Rightarrow> istream \<Rightarrow> Rule \<times> istream" where
  "readRule rule s0 =
     (let (v1, s1) = readInt (numberCondition rule) s0;
          (v2, s2) = readInt (hiddenCondition rule) s1;
          (v3, s3) = readInt (flaggedCondition rule) s2;
          (v4, s4) = readBool (nearEdge rule) s3;
          (v5, s5) = readBool (hasSpecificPattern rule) s4;
          (v6, s6) = readInt (extendedScope rule) s5;
          (v7, s7) = readInt (priority rule) s6;
          (v8, s8) = readInt (action rule) s7
      in (\<lparr>numberCondition = v1, hiddenCondition = v2, flaggedCondition = v3, nearEdge = v4,
            hasSpecificPattern = v5, extendedScope = v6, priority = v7, action = v8\<rparr>, s8))"

fun readRules :: "nat \<Rightarrow> nat \<Rightarrow> Rule list \<Rightarrow> istream \<Rightarrow> Rule list \<times> istream" where
  "readRules 0 j rs s = (rs, s)"
| "readRules (Suc n) j rs s =
     (let (r, s') = readRule (rs ! j) s in readRules n (Suc j) (rs[j := r]) s')"

text \<open>
  \<open>loadPopulation\<close> works on the vector it is given by reference and returns whether it succeeded:
  the result is the flag and the vector as the call leaves it. The file is \<open>None\<close> when it cannot be
  opened. The local variables \<open>popSize\<close> and \<open>numRules\<close> are not initialised; they are only looked at
  after a read that did not fail, so their prior value is taken as 0.
\<close>

fun loadIndividuals :: "nat \<Rightarrow> nat \<Rightarrow> Individual list \<Rightarrow> istream \<Rightarrow> bool \<times> Individual list" where
  "loadIndividuals 0 i population s = (True, population)"
| "loadIndividuals (Suc n) i population s =
     (let (numRules, s1) = readInt 0 s in
      if failbit s1 \<or> sint numRules \<noteq> int NUM_RULES then (False, population)
      else
        let rs0 = resize (nat (sint numRules)) zeroRule (rules (population ! i));
            (rs, s2) = readRules (nat (sint numRules)) 0 rs0 s1;
            (fit, s3) = readDouble (fitness (population ! i)) s2;
            population' = population[i := \<lparr>rules = rs, fitness = fit\<rparr>]
        in if failbit s3 then (False, population')
           else loadIndividuals n (Suc i) population' s3)"

definition loadPopulation :: "Individual list \<Rightarrow> byte list option \<Rightarrow> bool \<times> Individual list" where
  "loadPopulation population file =
     (case file of
        None \<Rightarrow> (False, population)
      | Some bytes \<Rightarrow>
          let (popSize, s1) = readInt 0 \<lparr>buf = bytes, failbit = False\<rparr> in
          if failbit s1 \<or> sint popSize \<noteq> int POPULATION_SIZE then (False, population)
          else loadIndividuals (nat (sint popSize)) 0 (replicate (nat (sint popSize)) newIndividual) s1)"

text \<open>
  \<open>savePopulation\<close> replaces the contents of the checkpoint file, or leaves it as it is when the
  output stream cannot be opened.
\<close>

definition writeRule :: "Rule \<Rightarrow> byte list" where
  "writeRule rule = intBytes (numberCondition rule) @ intBytes (hiddenCondition rule)
     @ intBytes (flaggedCondition rule) @ boolBytes (nearEdge rule)
     @ boolBytes (hasSpecificPattern rule) @ intBytes (extendedScope rule)
     @ intBytes (priority rule) @ intBytes (action rule)"

definition writeIndividual :: "Individual \<Rightarrow> byte list" where
  "writeIndividual ind = intBytes (word_of_nat (length (rules ind)))
     @ concat (map writeRule (rules ind)) @ doubleBytes (fitness ind)"

definition savePopulation :: "Individual list \<Rightarrow> bool \<Rightarrow> byte list option \<Rightarrow> byte list option" where
  "savePopulation population canOpen file =
     (if \<not> canOpen then file
      else Some (intBytes (word_of_nat (length population)) @ concat (map writeIndividual population)))"

text \<open>
  The start of \<open>main\<close>: the population is loaded from the checkpoint, and when that fails
  \<open>POPULATION_SIZE\<close> random individuals are pushed onto the vector that \<open>loadPopulation\<close> was given.
\<close>

fun pushRandomIndividuals :: "nat \<Rightarrow> Individual list \<Rightarrow> rng \<Rightarrow> nat \<Rightarrow> Individual list \<times> nat" where
  "pushRandomIndividuals 0 population rnd k = (population, k)"
| "pushRandomIndividuals (Suc n) population rnd k =
     (let (ind, k') = createRandomIndividual rnd k
      in pushRandomIndividuals n (population @ [ind]) rnd k')"

definition initialPopulation :: "byte list option \<Rightarrow> rng \<Rightarrow> nat \<Rightarrow> Individual list \<times> nat" where
  "initialPopulation file rnd k =
     (let (loaded, population) = loadPopulation [] file
      in if \<not> loaded then pushRandomIndividuals POPULATION_SIZE population rnd k
         else (population, k))"

section \<open>Crossover\<close>

text \<open>
  The cut points are drawn by rejection: a point already drawn is discarded and another is drawn. The
  loop has no bound in the source, so it runs on fuel, and \<open>None\<close> means that the fuel ran out.
  The points are distinct numbers, so \<open>std::sort\<close> can only return them in ascending order.
\<close>

fun drawPoints :: "nat \<Rightarrow> rng \<Rightarrow> nat \<Rightarrow> nat \<Rightarrow> nat list \<Rightarrow> (nat list \<times> nat) option" where
  "drawPoints 0 rnd k numPoints points =
     (if length points < numPoints then None else Some (points, k))"
| "drawPoints (Suc fuel) rnd k numPoints points =
     (if length points < numPoints then
        (let point = uniform_int_distribution rnd k 1 (NUM_RULES - 1)
         in drawPoints fuel rnd (Suc k) numPoints
              (if point \<in> set points then points else points @ [point]))
      else Some (points, k))"

definition cutPoints :: "nat \<Rightarrow> rng \<Rightarrow> nat \<Rightarrow> (nat list \<times> nat) option" where
  "cutPoints fuel rnd k =
     (let numPoints = uniform_int_distribution rnd k 1 (NUM_RULES - 1)
      in case drawPoints fuel rnd (Suc k) numPoints [] of
           None \<Rightarrow> None
         | Some (points, k') \<Rightarrow> Some (sort points, k'))"

text \<open>
  The two copying loops write position \<open>i\<close> of both children from position \<open>i\<close> of the parents;
  \<open>toggle\<close> says which parent feeds which child, and flips at every cut point. Reading a parent
  beyond its rules is undefined behaviour in the source and \<open>None\<close> here.
\<close>

definition copyGene :: "bool \<Rightarrow> Rule list \<Rightarrow> Rule list \<Rightarrow> nat \<Rightarrow> Rule list \<times> Rule list
    \<Rightarrow> Rule list \<times> Rule list" where
  "copyGene toggle p1 p2 i os =
     (if toggle then ((fst os)[i := p2 ! i], (snd os)[i := p1 ! i])
      else ((fst os)[i := p1 ! i], (snd os)[i := p2 ! i]))"

definition copyRange :: "nat \<Rightarrow> nat \<Rightarrow> bool \<Rightarrow> Rule list \<Rightarrow> Rule list \<Rightarrow> Rule list \<times> Rule list
    \<Rightarrow> Rule list \<times> Rule list" where
  "copyRange lastp point toggle p1 p2 os = fold (copyGene toggle p1 p2) [lastp..<point] os"

fun copyBlocks :: "nat list \<Rightarrow> nat \<Rightarrow> bool \<Rightarrow> Rule list \<Rightarrow> Rule list \<Rightarrow> Rule list \<times> Rule list
    \<Rightarrow> nat \<times> bool \<times> (Rule list \<times> Rule list)" where
  "copyBlocks [] lastp toggle p1 p2 os = (lastp, toggle, os)"
| "copyBlocks (point # points) lastp toggle p1 p2 os =
     copyBlocks points point (\<not> toggle) p1 p2 (copyRange lastp point toggle p1 p2 os)"

definition crossover :: "nat \<Rightarrow> Individual \<Rightarrow> Individual \<Rightarrow> Individual \<Rightarrow> Individual \<Rightarrow> rng \<Rightarrow> nat
    \<Rightarrow> (Individual \<times> Individual \<times> nat) option" where
  "crossover fuel p1 p2 o1 o2 rnd k =
     (if length (rules p1) < NUM_RULES \<or> length (rules p2) < NUM_RULES then None
      else case cutPoints fuel rnd k of
          None \<Rightarrow> None
        | Some (points, k') \<Rightarrow>
            let os0 = (resize NUM_RULES zeroRule (rules o1), resize NUM_RULES zeroRule (rules o2));
                (lastp, toggle, os1) = copyBlocks points 0 False (rules p1) (rules p2) os0;
                os2 = copyRange lastp NUM_RULES toggle (rules p1) (rules p2) os1
            in Some (o1\<lparr>rules := fst os2\<rparr>, o2\<lparr>rules := snd os2\<rparr>, k'))"

text \<open>The number of cut points at or before a position is odd: the block is swapped.\<close>

definition geneOrigin :: "nat list \<Rightarrow> nat \<Rightarrow> bool" where
  "geneOrigin cuts i = odd (length (filter (\<lambda>p. p \<le> i) cuts))"

section \<open>The board\<close>

datatype CellState = HIDDEN | REVEALED | FLAGGED

record Cell =
  isMine :: bool
  neighboringMines :: int
  state :: CellState

record Game =
  grid :: "Cell list list"
  gameOver :: bool
  youWin :: bool

text \<open>\<open>Cell()\<close> and \<open>Game()\<close>: a grid of \<open>GRID_HEIGHT\<close> rows of \<open>GRID_WIDTH\<close> default cells.\<close>

definition newCell :: Cell where
  "newCell = \<lparr>isMine = False, neighboringMines = 0, state = HIDDEN\<rparr>"

definition newGame :: Game where
  "newGame = \<lparr>grid = replicate (nat GRID_HEIGHT) (replicate (nat GRID_WIDTH) newCell),
     gameOver = False, youWin = False\<rparr>"

text \<open>\<open>grid[y][x]\<close>, read and written. The source guards every access by a bounds check.\<close>

definition cellAt :: "Game \<Rightarrow> int \<Rightarrow> int \<Rightarrow> Cell" where
  "cellAt g x y = grid g ! nat y ! nat x"

definition setCell :: "int \<Rightarrow> int \<Rightarrow> Cell \<Rightarrow> Game \<Rightarrow> Game" where
  "setCell x y c g = g\<lparr>grid := (grid g)[nat y := (grid g ! nat y)[nat x := c]]\<rparr>"

text \<open>
  The cells in the order of \<open>for (y ...) for (x ...)\<close>, and the offsets in the order of
  \<open>for (dy = -1 ...) for (dx = -1 ...)\<close>.
\<close>

definition coords :: "(int \<times> int) list" where
  "coords = concat (map (\<lambda>y. map (\<lambda>x. (x, y)) [0..GRID_WIDTH - 1]) [0..GRID_HEIGHT - 1])"

definition neighborOffsets :: "(int \<times> int) list" where
  "neighborOffsets = concat (map (\<lambda>dy. map (\<lambda>dx. (dx, dy)) [-1..1]) [-1..1])"

definition checkWinCondition :: "Game \<Rightarrow> Game" where
  "checkWinCondition g =
     (let revealedCount = int (length (filter (\<lambda>c. state (cellAt g (fst c) (snd c)) = REVEALED) coords))
      in if revealedCount = GRID_WIDTH * GRID_HEIGHT - NUM_MINES then g\<lparr>youWin := True\<rparr> else g)"

text \<open>
  \<open>revealCell\<close> calls itself for the nine offsets of a cell without neighbouring mines, each call on
  the board the previous one left. The recursion is on the depth of the call stack: with no depth
  left the result is \<open>None\<close>. A call from outside starts with one level more than there are cells.
\<close>

fun foldOption :: "('a \<Rightarrow> 's \<Rightarrow> 's option) \<Rightarrow> 'a list \<Rightarrow> 's \<Rightarrow> 's option" where
  "foldOption f [] s = Some s"
| "foldOption f (a # as) s = (case f a s of None \<Rightarrow> None | Some s' \<Rightarrow> foldOption f as s')"

fun revealCellDepth :: "nat \<Rightarrow> int \<Rightarrow> int \<Rightarrow> Game \<Rightarrow> Game option" where
  "revealCellDepth 0 x y g = None"
| "revealCellDepth (Suc depth) x y g =
     (if x < 0 \<or> x \<ge> GRID_WIDTH \<or> y < 0 \<or> y \<ge> GRID_HEIGHT \<or> state (cellAt g x y) \<noteq> HIDDEN
      then Some g
      else
        let g1 = setCell x y ((cellAt g x y)\<lparr>state := REVEALED\<rparr>) g in
        if isMine (cellAt g1 x y) then Some (g1\<lparr>gameOver := True\<rparr>)
        else if neighboringMines (cellAt g1 x y) = 0 then
          map_option checkWinCondition
            (foldOption (\<lambda>d s. revealCellDepth depth (x + fst d) (y + snd d) s) neighborOffsets g1)
        else Some (checkWinCondition g1))"

definition revealCell :: "int \<Rightarrow> int \<Rightarrow> Game \<Rightarrow> Game option" where
  "revealCell x y g = revealCellDepth (Suc (nat (GRID_WIDTH * GRID_HEIGHT))) x y g"

definition placeFlag :: "int \<Rightarrow> int \<Rightarrow> Game \<Rightarrow> Game" where
  "placeFlag x y g =
     (if x < 0 \<or> x \<ge> GRID_WIDTH \<or> y < 0 \<or> y \<ge> GRID_HEIGHT \<or> state (cellAt g x y) \<noteq> HIDDEN
      then g
      else setCell x y ((cellAt g x y)\<lparr>state := FLAGGED\<rparr>) g)"

text \<open>
  \<open>initializeGridFixed\<close>: the first pair of loops installs the mines of the scenario, the second
  counts, for every cell that is not a mine, the mines among the cells of the board at the nine
  offsets; then the start cell is revealed.
\<close>

record FixedGame =
  startX :: int
  startY :: int
  mineGrid :: "bool list list"

definition installMines :: "bool list list \<Rightarrow> Game \<Rightarrow> Game" where
  "installMines mines g =
     fold (\<lambda>c g'. setCell (fst c) (snd c) (newCell\<lparr>isMine := mines ! nat (snd c) ! nat (fst c)\<rparr>) g')
       coords g"

definition mineNeighbors :: "Game \<Rightarrow> int \<Rightarrow> int \<Rightarrow> int" where
  "mineNeighbors g x y =
     int (length (filter
       (\<lambda>d. let nx = x + fst d; ny = y + snd d
            in nx \<ge> 0 \<and> nx < GRID_WIDTH \<and> ny \<ge> 0 \<and> ny < GRID_HEIGHT \<and> isMine (cellAt g nx ny))
       neighborOffsets))"

definition numberStep :: "int \<times> int \<Rightarrow> Game \<Rightarrow> Game" where
  "numberStep c g' =
     (if isMine (cellAt g' (fst c) (snd c)) then g'
      else setCell (fst c) (snd c)
             ((cellAt g' (fst c) (snd c))\<lparr>neighboringMines := mineNeighbors g' (fst c) (snd c)\<rparr>) g')"

definition computeNumbers :: "Game \<Rightarrow> Game" where
  "computeNumbers g = fold numberStep coords g"

definition initializeGridFixed :: "int \<Rightarrow> int \<Rightarrow> bool list list \<Rightarrow> Game \<Rightarrow> Game option" where
  "initializeGridFixed sx sy mines g =
     (let g1 = computeNumbers (installMines mines (g\<lparr>gameOver := False, youWin := False\<rparr>))
      in if sx \<ge> 0 \<and> sy \<ge> 0 then revealCell sx sy g1 else Some g1)"

section \<open>The rule interpreter\<close>

text \<open>
  \<open>std::sort\<close> is library code: \<open>applyRules\<close> takes it as a parameter. The cells of the board within
  \<open>extendedScope\<close> of a cell are visited row by row; the flagged ones are counted and the hidden ones
  are counted and collected.
\<close>

type_synonym sorter = "Rule list \<Rightarrow> Rule list"

definition scopeCells :: "int \<Rightarrow> int \<Rightarrow> int \<Rightarrow> (int \<times> int) list" where
  "scopeCells scope x y =
     filter (\<lambda>c. \<not> (fst c < 0 \<or> fst c \<ge> GRID_WIDTH \<or> snd c < 0 \<or> snd c \<ge> GRID_HEIGHT))
       (concat (map (\<lambda>dy. map (\<lambda>dx. (x + dx, y + dy)) [- scope..scope]) [- scope..scope]))"

fun revealHiddenCells :: "(int \<times> int) list \<Rightarrow> Game \<times> bool \<Rightarrow> (Game \<times> bool) option" where
  "revealHiddenCells [] s = Some s"
| "revealHiddenCells (c # cs) s =
     (if \<not> gameOver (fst s) \<and> \<not> youWin (fst s) then
        (case revealCell (fst c) (snd c) (fst s) of
           None \<Rightarrow> None
         | Some g' \<Rightarrow> revealHiddenCells cs (g', True))
      else revealHiddenCells cs s)"

definition applyRuleAt :: "Rule \<Rightarrow> int \<Rightarrow> int \<Rightarrow> Game \<times> bool \<Rightarrow> (Game \<times> bool) option" where
  "applyRuleAt rule x y s =
     (let g = fst s in
      if state (cellAt g x y) = REVEALED
         \<and> neighboringMines (cellAt g x y) = sint (numberCondition rule)
      then
        let cells = scopeCells (sint (extendedScope rule)) x y;
            flagsCount = int (length (filter (\<lambda>c. state (cellAt g (fst c) (snd c)) = FLAGGED) cells));
            hiddenCells = filter (\<lambda>c. state (cellAt g (fst c) (snd c)) = HIDDEN) cells;
            hiddenCount = int (length hiddenCells)
        in
          if hiddenCount \<noteq> sint (hiddenCondition rule) then Some s
          else if flagsCount \<noteq> sint (flaggedCondition rule) then Some s
          else if nearEdge rule
               \<and> \<not> (x \<le> 1 \<or> x \<ge> GRID_WIDTH - 2 \<or> y \<le> 1 \<or> y \<ge> GRID_HEIGHT - 2) then Some s
          else if hasSpecificPattern rule \<and> \<not> (neighboringMines (cellAt g x y) = 2) then Some s
          else if action rule = ACTION_REVEAL_HIDDEN then
            (if flagsCount = sint (numberCondition rule) \<and> hiddenCount > 0
             then revealHiddenCells hiddenCells s else Some s)
          else if action rule = ACTION_PLACE_FLAG then
            (if sint (numberCondition rule) - 1 = flagsCount \<and> hiddenCount = 1 then
               (if \<not> gameOver g \<and> \<not> youWin g
                then Some (placeFlag (fst (hiddenCells ! 0)) (snd (hiddenCells ! 0)) g, True)
                else Some s)
             else Some s)
          else Some s
      else Some s)"

text \<open>
  The loops over the cells and over the rules. \<open>return changed\<close> on a finished game leaves both
  loops; here the inner loop stops and the outer loop stops at its next test of the same condition.
\<close>

fun scanCells :: "Rule \<Rightarrow> (int \<times> int) list \<Rightarrow> Game \<times> bool \<Rightarrow> (Game \<times> bool) option" where
  "scanCells rule [] s = Some s"
| "scanCells rule (c # cs) s =
     (if gameOver (fst s) \<or> youWin (fst s) then Some s
      else case applyRuleAt rule (fst c) (snd c) s of
             None \<Rightarrow> None
           | Some s' \<Rightarrow> scanCells rule cs s')"

fun applySortedRules :: "Rule list \<Rightarrow> Game \<times> bool \<Rightarrow> (Game \<times> bool) option" where
  "applySortedRules [] s = Some s"
| "applySortedRules (rule # sortedRules) s =
     (if gameOver (fst s) \<or> youWin (fst s) then Some s
      else case scanCells rule coords s of
             None \<Rightarrow> None
           | Some s' \<Rightarrow> applySortedRules sortedRules s')"

text \<open>
  \<open>applyRules\<close> takes the individual and the game by reference; the result is the individual and the
  game as the call leaves them, and the returned flag.
\<close>

definition applyRules :: "sorter \<Rightarrow> Individual \<Rightarrow> Game \<Rightarrow> (Individual \<times> Game \<times> bool) option" where
  "applyRules std_sort ind game =
     (let sortedRules = std_sort (rules ind)
      in case applySortedRules sortedRules (game, False) of
           None \<Rightarrow> None
         | Some s \<Rightarrow> Some (ind, fst s, snd s))"

definition revealRandomCell :: "Game \<Rightarrow> rng \<Rightarrow> nat \<Rightarrow> (Game \<times> nat) option" where
  "revealRandomCell g rnd k =
     (let hiddenCells = filter (\<lambda>c. state (cellAt g (fst c) (snd c)) = HIDDEN) coords in
      if hiddenCells \<noteq> [] then
        let idx = uniform_int_distribution rnd k 0 (length hiddenCells - 1)
        in case revealCell (fst (hiddenCells ! idx)) (snd (hiddenCells ! idx)) g of
             None \<Rightarrow> None
           | Some g' \<Rightarrow> Some (g', Suc k)
      else Some (g, k))"

section \<open>Fitness evaluation\<close>

text \<open>
  The \<open>while\<close> loop of one game. It has no bound in the source: it runs on fuel, one unit for each
  iteration, and \<open>None\<close> means that the fuel ran out before the loop ended.
\<close>

fun playLoop :: "nat \<Rightarrow> sorter \<Rightarrow> rng \<Rightarrow> Individual \<Rightarrow> Game \<Rightarrow> int \<Rightarrow> bool \<Rightarrow> nat
    \<Rightarrow> (Individual \<times> Game \<times> int \<times> nat) option" where
  "playLoop 0 std_sort rnd ind game actionsTaken changed k =
     (if \<not> gameOver game \<and> \<not> youWin game \<and> changed then None
      else Some (ind, game, actionsTaken, k))"
| "playLoop (Suc fuel) std_sort rnd ind game actionsTaken changed k =
     (if \<not> gameOver game \<and> \<not> youWin game \<and> changed then
        (case applyRules std_sort ind game of
           None \<Rightarrow> None
         | Some (ind1, game1, changed1) \<Rightarrow>
             let actions1 = (if changed1 then actionsTaken + 1 else actionsTaken) in
             if \<not> changed1 \<and> \<not> gameOver game1 \<and> \<not> youWin game1 then
               (case revealRandomCell game1 rnd k of
                  None \<Rightarrow> None
                | Some (game2, k') \<Rightarrow> playLoop fuel std_sort rnd ind1 game2 (actions1 + 1) True k')
             else playLoop fuel std_sort rnd ind1 game1 actions1 changed1 k)
      else Some (ind, game, actionsTaken, k))"

text \<open>One scenario: a new game, initialised from the scenario and played to the end.\<close>

definition playGame :: "nat \<Rightarrow> sorter \<Rightarrow> rng \<Rightarrow> Individual \<Rightarrow> FixedGame \<Rightarrow> nat
    \<Rightarrow> (Individual \<times> Game \<times> int \<times> nat) option" where
  "playGame fuel std_sort rnd ind fg k =
     (case initializeGridFixed (startX fg) (startY fg) (mineGrid fg) newGame of
        None \<Rightarrow> None
      | Some game \<Rightarrow> playLoop fuel std_sort rnd ind game 0 True k)"

text \<open>
  The three counters of the scoring loops, and the score. The score is a \<open>double\<close> in the source; here
  its arithmetic is exact, on rationals, and rounding is not part of the model. A division by zero
  gives a value that is not a number, or an infinity, as it does for a \<open>double\<close>.
\<close>

definition countCell :: "Game \<Rightarrow> int \<times> int \<Rightarrow> int \<times> int \<times> int \<Rightarrow> int \<times> int \<times> int" where
  "countCell game c t =
     (let cell = cellAt game (fst c) (snd c);
          safeRevealed = (if \<not> isMine cell \<and> state cell = REVEALED then fst t + 1 else fst t);
          correctFlags = (if isMine cell \<and> state cell = FLAGGED
                          then fst (snd t) + 1 else fst (snd t));
          minesRevealed = (if isMine cell \<and> state cell = REVEALED
                           then snd (snd t) + 1 else snd (snd t))
      in (safeRevealed, correctFlags, minesRevealed))"

definition countCells :: "Game \<Rightarrow> int \<times> int \<times> int" where
  "countCells game = fold (countCell game) coords (0, 0, 0)"

definition gameScore :: "Game \<Rightarrow> int \<Rightarrow> rat" where
  "gameScore game actionsTaken =
     (let (safeRevealed, correctFlags, minesRevealed) = countCells game;
          score0 = of_int safeRevealed;
          score1 = score0 + of_int correctFlags * 5;
          score2 = score1 - of_int minesRevealed * 50;
          score3 = score2 - of_int actionsTaken * (1 / 10)
      in if youWin game then score3 + 2000 else score3)"

datatype fitnessValue = Finite rat | Infinite | NaN

definition divideDouble :: "rat \<Rightarrow> nat \<Rightarrow> fitnessValue" where
  "divideDouble totalScore n =
     (if n = 0 then (if totalScore = 0 then NaN else Infinite) else Finite (totalScore / of_nat n))"

text \<open>
  \<open>evaluateIndividual\<close>: the loop over the selected scenarios adds the scores and counts the games
  and the wins in the two shared counters; the result is the individual as the call leaves it, the
  returned fitness, the counters, and the position of the random generator.
\<close>

fun evaluateGames :: "nat \<Rightarrow> sorter \<Rightarrow> rng \<Rightarrow> FixedGame list
    \<Rightarrow> Individual \<times> rat \<times> int \<times> int \<times> nat \<Rightarrow> (Individual \<times> rat \<times> int \<times> int \<times> nat) option" where
  "evaluateGames fuel std_sort rnd [] st = Some st"
| "evaluateGames fuel std_sort rnd (fg # fgs) (ind, totalScore, wins, games, k) =
     (case playGame fuel std_sort rnd ind fg k of
        None \<Rightarrow> None
      | Some (ind', game, actionsTaken, k') \<Rightarrow>
          evaluateGames fuel std_sort rnd fgs
            (ind', totalScore + gameScore game actionsTaken,
             (if youWin game then wins + 1 else wins), games + 1, k'))"

definition evaluateIndividual :: "nat \<Rightarrow> sorter \<Rightarrow> rng \<Rightarrow> Individual \<Rightarrow> FixedGame list \<Rightarrow> int \<Rightarrow> int \<Rightarrow> nat
    \<Rightarrow> (Individual \<times> fitnessValue \<times> int \<times> int \<times> nat) option" where
  "evaluateIndividual fuel std_sort rnd ind selectedGames generationWins generationGames k =
     (case evaluateGames fuel std_sort rnd selectedGames (ind, 0, generationWins, generationGames, k) of
        None \<Rightarrow> None
      | Some (ind', totalScore, wins, games, k') \<Rightarrow>
          Some (ind', divideDouble totalScore (length selectedGames), wins, games, k'))"

text \<open>
  \<open>selectFixedGames\<close> returns the empty sample for an empty bank and otherwise what \<open>std::sample\<close>
  returns, which is library code and a parameter here.
\<close>

definition selectFixedGames :: "(FixedGame list \<Rightarrow> nat \<Rightarrow> FixedGame list) \<Rightarrow> FixedGame list \<Rightarrow> nat
    \<Rightarrow> FixedGame list" where
  "selectFixedGames std_sample fixedGamesGlobal numGames =
     (if fixedGamesGlobal = [] then [] else std_sample fixedGamesGlobal numGames)"

section \<open>Well-formed boards\<close>

text \<open>
  A position is on the board; the grid has the dimensions \<open>Game()\<close> gives it; the numbers of hidden
  and of revealed cells.
\<close>

definition inBounds :: "int \<Rightarrow> int \<Rightarrow> bool" where
  "inBounds x y \<longleftrightarrow> 0 \<le> x \<and> x < GRID_WIDTH \<and> 0 \<le> y \<and> y < GRID_HEIGHT"

definition dimsOk :: "Game \<Rightarrow> bool" where
  "dimsOk g \<longleftrightarrow>
     length (grid g) = nat GRID_HEIGHT \<and> (\<forall>row \<in> set (grid g). length row = nat GRID_WIDTH)"

definition hiddenCount :: "Game \<Rightarrow> nat" where
  "hiddenCount g = length (filter (\<lambda>c. state (cellAt g (fst c) (snd c)) = HIDDEN) coords)"

definition revealedCount :: "Game \<Rightarrow> nat" where
  "revealedCount g = length (filter (\<lambda>c. state (cellAt g (fst c) (snd c)) = REVEALED) coords)"

text \<open>The number of revealed cells at which \<open>checkWinCondition\<close> sets the win flag.\<close>

definition winCount :: nat where
  "winCount = nat (GRID_WIDTH * GRID_HEIGHT - NUM_MINES)"

text \<open>
  \<open>reveals g g'\<close>: the board \<open>g'\<close> comes from \<open>g\<close> by revealing hidden cells and nothing else. Mines
  and numbers are the same, the flags \<open>gameOver\<close> and \<open>youWin\<close> are not taken back, and a win flag
  that is new was set by a check that counted \<open>winCount\<close> revealed cells.
\<close>

definition reveals :: "Game \<Rightarrow> Game \<Rightarrow> bool" where
  "reveals g g' \<longleftrightarrow>
     dimsOk g'
     \<and> (\<forall>c \<in> set coords.
           isMine (cellAt g' (fst c) (snd c)) = isMine (cellAt g (fst c) (snd c))
         \<and> neighboringMines (cellAt g' (fst c) (snd c)) = neighboringMines (cellAt g (fst c) (snd c))
         \<and> (state (cellAt g' (fst c) (snd c)) = state (cellAt g (fst c) (snd c))
            \<or> state (cellAt g (fst c) (snd c)) = HIDDEN \<and> state (cellAt g' (fst c) (snd c)) = REVEALED))
     \<and> (gameOver g \<longrightarrow> gameOver g')
     \<and> (youWin g \<longrightarrow> youWin g')
     \<and> (youWin g' \<longrightarrow> youWin g \<or> revealedCount g < winCount \<and> winCount \<le> revealedCount g')"

text \<open>
  The number of every cell that is not a mine is the number of mines around it; the mines of \<open>g\<close>
  are in \<open>g'\<close> as they were, and no loss was added; the bitmap of a scenario has the dimensions of
  the board and \<open>NUM_MINES\<close> mines.
\<close>

definition countsOk :: "Game \<Rightarrow> bool" where
  "countsOk g \<longleftrightarrow>
     (\<forall>c \<in> set coords. \<not> isMine (cellAt g (fst c) (snd c))
        \<longrightarrow> neighboringMines (cellAt g (fst c) (snd c)) = mineNeighbors g (fst c) (snd c))"

definition minesKept :: "Game \<Rightarrow> Game \<Rightarrow> bool" where
  "minesKept g g' \<longleftrightarrow>
     gameOver g' = gameOver g
     \<and> (\<forall>c \<in> set coords. isMine (cellAt g (fst c) (snd c))
           \<longrightarrow> state (cellAt g' (fst c) (snd c)) = state (cellAt g (fst c) (snd c)))"

definition bitmapOk :: "bool list list \<Rightarrow> bool" where
  "bitmapOk mines \<longleftrightarrow>
     length mines = nat GRID_HEIGHT \<and> (\<forall>row \<in> set mines. length row = nat GRID_WIDTH)
     \<and> length (filter (\<lambda>c. mines ! nat (snd c) ! nat (fst c)) coords) = nat NUM_MINES"

definition mineCount :: "Game \<Rightarrow> nat" where
  "mineCount g = length (filter (\<lambda>c. isMine (cellAt g (fst c) (snd c))) coords)"

text \<open>The board of \<open>initializeGridFixed\<close> before the start cell is revealed.\<close>

definition freshBoard :: "bool list list \<Rightarrow> Game \<Rightarrow> Game" where
  "freshBoard mines g = computeNumbers (installMines mines (g\<lparr>gameOver := False, youWin := False\<rparr>))"

section \<open>Example data\<close>

definition exampleRule :: Rule where
  "exampleRule = \<lparr>numberCondition = 1, hiddenCondition = 1, flaggedCondition = 0, nearEdge = False,
     hasSpecificPattern = False, extendedScope = 1, priority = 10, action = ACTION_PLACE_FLAG\<rparr>"

definition examplePopulation :: "Individual list" where
  "examplePopulation =
     replicate 300 \<lparr>rules = replicate 150 exampleRule, fitness = 0x409F400000000000\<rparr>"

definition exampleParentA :: Individual where
  "exampleParentA = \<lparr>rules = replicate 150 exampleRule, fitness = 0\<rparr>"

definition exampleParentB :: Individual where
  "exampleParentB = \<lparr>rules = replicate 150 zeroRule, fitness = 0\<rparr>"

text \<open>
  A scenario with \<open>NUM_MINES\<close> mines whose only cell without a neighbouring mine is the corner
  \<open>(9, 9)\<close>, and an individual with a single rule.
\<close>

definition mineGridOf :: "(int \<times> int) list \<Rightarrow> bool list list" where
  "mineGridOf mines =
     map (\<lambda>y. map (\<lambda>x. (x, y) \<in> set mines) [0..GRID_WIDTH - 1]) [0..GRID_HEIGHT - 1]"

definition exampleMines :: "(int \<times> int) list" where
  "exampleMines = [(1, 1), (4, 1), (7, 1), (9, 1), (1, 4), (4, 4), (7, 4), (9, 4),
     (1, 7), (4, 7), (7, 7), (9, 7), (1, 9), (4, 9), (7, 9)]"

definition exampleBoard :: Game where
  "exampleBoard = freshBoard (mineGridOf exampleMines) newGame"

chapter \<open>Properties\<close>

section \<open>Checkpoint round trip\<close>

lemma bytesInt_intBytes: "bytesInt (intBytes w) = w"
proof (rule bit_eqI)
  fix n assume "possible_bit TYPE(cint) n"
  then have n: "n < 32" by (simp add: possible_bit_word)
  consider "n < 8" | "8 \<le> n" "n < 16" | "16 \<le> n" "n < 24" | "24 \<le> n" by linarith
  then show "bit (bytesInt (intBytes w)) n = bit w n"
    using n unfolding bytesInt_def intBytes_def by cases (auto simp add: bit_simps)
qed

lemma bytesDouble_doubleBytes: "bytesDouble (doubleBytes w) = w"
proof (rule bit_eqI)
  fix n assume "possible_bit TYPE(64 word) n"
  then have n: "n < 64" by (simp add: possible_bit_word)
  consider "n < 8" | "8 \<le> n" "n < 16" | "16 \<le> n" "n < 24" | "24 \<le> n" "n < 32"
    | "32 \<le> n" "n < 40" | "40 \<le> n" "n < 48" | "48 \<le> n" "n < 56" | "56 \<le> n" by linarith
  then show "bit (bytesDouble (doubleBytes w)) n = bit w n"
    using n unfolding bytesDouble_def doubleBytes_def by cases (auto simp add: bit_simps)
qed

lemma bytesBool_boolBytes: "bytesBool (boolBytes b) = b"
  by (simp add: bytesBool_def boolBytes_def)

lemma length_intBytes: "length (intBytes w) = 4" by (simp add: intBytes_def)
lemma length_doubleBytes: "length (doubleBytes w) = 8" by (simp add: doubleBytes_def)
lemma length_boolBytes: "length (boolBytes w) = 1" by (simp add: boolBytes_def)

lemma readBytes_exact:
  "length bs = n \<Longrightarrow> readBytes n old \<lparr>buf = bs @ rest, failbit = False\<rparr> = (bs, \<lparr>buf = rest, failbit = False\<rparr>)"
  by (simp add: readBytes_def)

lemma readInt_intBytes:
  "readInt old \<lparr>buf = intBytes w @ rest, failbit = False\<rparr> = (w, \<lparr>buf = rest, failbit = False\<rparr>)"
  by (simp add: readInt_def readBytes_exact length_intBytes bytesInt_intBytes)

lemma readBool_boolBytes:
  "readBool old \<lparr>buf = boolBytes w @ rest, failbit = False\<rparr> = (w, \<lparr>buf = rest, failbit = False\<rparr>)"
  by (simp add: readBool_def readBytes_exact length_boolBytes bytesBool_boolBytes)

lemma readDouble_doubleBytes:
  "readDouble old \<lparr>buf = doubleBytes w @ rest, failbit = False\<rparr> = (w, \<lparr>buf = rest, failbit = False\<rparr>)"
  by (simp add: readDouble_def readBytes_exact length_doubleBytes bytesDouble_doubleBytes)

lemma readRule_writeRule:
  "readRule old \<lparr>buf = writeRule r @ rest, failbit = False\<rparr> = (r, \<lparr>buf = rest, failbit = False\<rparr>)"
  by (simp add: readRule_def writeRule_def readInt_intBytes readBool_boolBytes)

lemma readRules_writeRules:
  "length rs = j + length xs \<Longrightarrow>
   readRules (length xs) j rs \<lparr>buf = concat (map writeRule xs) @ rest, failbit = False\<rparr>
     = (take j rs @ xs, \<lparr>buf = rest, failbit = False\<rparr>)"
proof (induction xs arbitrary: j rs)
  case Nil
  then show ?case by simp
next
  case (Cons x xs)
  have len: "length (rs[j := x]) = Suc j + length xs" using Cons.prems by simp
  have "take (Suc j) (rs[j := x]) = take j rs @ [x]"
    using Cons.prems by (simp add: take_Suc_conv_app_nth)
  then show ?case
    using Cons.IH [OF len, of] by (simp add: readRule_writeRule)
qed

lemma sint_NUM_RULES: "sint (word_of_nat NUM_RULES :: cint) = int NUM_RULES"
  by (simp add: NUM_RULES_def)

lemma sint_POPULATION_SIZE: "sint (word_of_nat POPULATION_SIZE :: cint) = int POPULATION_SIZE"
  by (simp add: POPULATION_SIZE_def)

lemma loadIndividuals_step:
  assumes nr: "length (rules x) = NUM_RULES"
  shows "loadIndividuals (Suc n) i population \<lparr>buf = writeIndividual x @ rest, failbit = False\<rparr>
     = loadIndividuals n (Suc i) (population[i := x]) \<lparr>buf = rest, failbit = False\<rparr>"
proof -
  have rr: "readRules NUM_RULES 0 (resize NUM_RULES zeroRule (rules (population ! i)))
       \<lparr>buf = concat (map writeRule (rules x)) @ (doubleBytes (fitness x) @ rest), failbit = False\<rparr>
     = (rules x, \<lparr>buf = doubleBytes (fitness x) @ rest, failbit = False\<rparr>)"
    using readRules_writeRules [of "resize NUM_RULES zeroRule (rules (population ! i))" 0 "rules x"] nr
    by (simp add: resize_def)
  have x: "\<lparr>rules = rules x, fitness = fitness x\<rparr> = x" by simp
  show ?thesis
    using rr
    by (simp add: writeIndividual_def readInt_intBytes readDouble_doubleBytes nr sint_NUM_RULES x
        del: Individual.surjective)
qed

lemma loadIndividuals_written:
  "length population = i + length xs \<Longrightarrow> \<forall>ind \<in> set xs. length (rules ind) = NUM_RULES \<Longrightarrow>
   loadIndividuals (length xs) i population
       \<lparr>buf = concat (map writeIndividual xs) @ rest, failbit = False\<rparr>
     = (True, take i population @ xs)"
proof (induction xs arbitrary: i population)
  case Nil
  then show ?case by simp
next
  case (Cons x xs)
  let ?p = "population[i := x]"
  have len: "length ?p = Suc i + length xs" using Cons.prems by simp
  have rest: "\<forall>ind \<in> set xs. length (rules ind) = NUM_RULES" using Cons.prems by simp
  have nr: "length (rules x) = NUM_RULES" using Cons.prems by simp
  have tk: "take (Suc i) ?p = take i population @ [x]"
    using Cons.prems by (simp add: take_Suc_conv_app_nth)
  show ?case
    using Cons.IH [OF len rest] tk by (simp add: loadIndividuals_step [OF nr] del: loadIndividuals.simps)
qed

text \<open>
  Claim C6. A population of \<open>POPULATION_SIZE\<close> individuals with \<open>NUM_RULES\<close> rules each, saved by
  \<open>savePopulation\<close> to a file that can be opened, is read back by \<open>loadPopulation\<close> with success,
  and the vector it fills equals the saved population: every field of every rule and every fitness
  value, whatever the vector held before.
\<close>

theorem checkpoint_roundtrip:
  assumes "length population = POPULATION_SIZE"
    and "\<forall>ind \<in> set population. length (rules ind) = NUM_RULES"
  shows "loadPopulation p0 (savePopulation population True file) = (True, population)"
proof -
  have "loadIndividuals (length population) 0 (replicate POPULATION_SIZE newIndividual)
       \<lparr>buf = concat (map writeIndividual population) @ [], failbit = False\<rparr>
     = (True, take 0 (replicate POPULATION_SIZE newIndividual) @ population)"
    using assms by (intro loadIndividuals_written) simp_all
  then show ?thesis
    using assms(1) by (simp add: loadPopulation_def savePopulation_def readInt_intBytes sint_POPULATION_SIZE)
qed

theorem checkpoint_roundtrip_witness:
  "loadPopulation [] (savePopulation examplePopulation True None) = (True, examplePopulation)"
proof -
  have h1: "length examplePopulation = POPULATION_SIZE"
    by (simp add: examplePopulation_def POPULATION_SIZE_def)
  have h2: "\<forall>ind \<in> set examplePopulation. length (rules ind) = NUM_RULES"
    by (simp add: examplePopulation_def NUM_RULES_def)
  show ?thesis
    using checkpoint_roundtrip [OF h1 h2, of "[]" None] by simp
qed

section \<open>A checkpoint with another rule count\<close>

lemma pushRandomIndividuals_appends:
  "length (fst (pushRandomIndividuals n population rnd k)) = length population + n
   \<and> take (length population) (fst (pushRandomIndividuals n population rnd k)) = population"
proof (induction n arbitrary: population k)
  case 0
  then show ?case by simp
next
  case (Suc n)
  obtain ind k' where c: "createRandomIndividual rnd k = (ind, k')"
    by (cases "createRandomIndividual rnd k")
  have "take (length population) (fst (pushRandomIndividuals n (population @ [ind]) rnd k'))
      = take (length population) (take (length (population @ [ind]))
          (fst (pushRandomIndividuals n (population @ [ind]) rnd k')))"
    by (simp add: min_def)
  also have "\<dots> = population"
    using Suc.IH [of "population @ [ind]" k'] by simp
  finally show ?case
    using Suc.IH [of "population @ [ind]" k'] c by simp
qed

lemma loadPopulation_rule_count_149:
  "loadPopulation [] (Some (intBytes 300 @ intBytes 149)) = (False, replicate 300 newIndividual)"
proof -
  have n: "nat (sint (300 :: cint)) = Suc 299" by simp
  have "loadIndividuals (Suc 299) 0 (replicate 300 newIndividual)
      \<lparr>buf = intBytes 149 @ [], failbit = False\<rparr> = (False, replicate 300 newIndividual)"
    unfolding loadIndividuals.simps readInt_intBytes by (simp add: NUM_RULES_def)
  then show ?thesis
    unfolding loadPopulation_def by (simp add: readInt_intBytes POPULATION_SIZE_def n)
qed

text \<open>
  Claim C7, at a checkpoint that records 300 individuals and 149 rules for the first of them.
  \<open>loadPopulation\<close> reports failure, but it has already assigned 300 default individuals to the
  vector; \<open>main\<close> pushes 300 random individuals behind them. The trainer starts with 600 individuals,
  the first 300 of them with no rules.
\<close>

theorem mismatched_rule_count_population:
  "fst (loadPopulation [] (Some (intBytes 300 @ intBytes 149))) = False
   \<and> length (fst (initialPopulation (Some (intBytes 300 @ intBytes 149)) rnd k)) = 600
   \<and> take 300 (fst (initialPopulation (Some (intBytes 300 @ intBytes 149)) rnd k))
       = replicate 300 newIndividual"
  using pushRandomIndividuals_appends [of 300 "replicate 300 newIndividual" rnd k]
  by (simp add: initialPopulation_def loadPopulation_rule_count_149 POPULATION_SIZE_def)

section \<open>Crossover copies whole genes\<close>

lemma copyRange_length:
  "length (fst (copyRange a b t p1 p2 os)) = length (fst os) \<and>
   length (snd (copyRange a b t p1 p2 os)) = length (snd os)"
proof -
  have "length (fst (fold (copyGene t p1 p2) is os)) = length (fst os) \<and>
        length (snd (fold (copyGene t p1 p2) is os)) = length (snd os)" for "is"
    by (induction "is" arbitrary: os) (simp_all add: copyGene_def)
  then show ?thesis by (simp add: copyRange_def)
qed

lemma fold_copyGene_nth:
  "j < length (fst os) \<Longrightarrow> j < length (snd os) \<Longrightarrow>
   fst (fold (copyGene t p1 p2) is os) ! j =
     (if j \<in> set is then (if t then p2 ! j else p1 ! j) else fst os ! j) \<and>
   snd (fold (copyGene t p1 p2) is os) ! j =
     (if j \<in> set is then (if t then p1 ! j else p2 ! j) else snd os ! j)"
proof (induction "is" arbitrary: os)
  case Nil
  then show ?case by simp
next
  case (Cons i "is")
  have l: "j < length (fst (copyGene t p1 p2 i os))" "j < length (snd (copyGene t p1 p2 i os))"
    using Cons.prems by (simp_all add: copyGene_def)
  show ?case
    using Cons.IH [OF l] Cons.prems by (auto simp add: copyGene_def nth_list_update)
qed

lemma copyRange_nth:
  assumes "j < length (fst os)" "j < length (snd os)"
  shows "fst (copyRange a b t p1 p2 os) ! j =
     (if a \<le> j \<and> j < b then (if t then p2 ! j else p1 ! j) else fst os ! j)"
    and "snd (copyRange a b t p1 p2 os) ! j =
     (if a \<le> j \<and> j < b then (if t then p1 ! j else p2 ! j) else snd os ! j)"
  using fold_copyGene_nth [OF assms, of t p1 p2 "[a..<b]"] by (simp_all add: copyRange_def)

lemma copyBlocks_length:
  "copyBlocks points lastp toggle p1 p2 os = (lastq, toggle', os') \<Longrightarrow>
   length (fst os') = length (fst os) \<and> length (snd os') = length (snd os)"
  by (induction points arbitrary: lastp toggle os) (auto simp add: copyRange_length)

lemma copyBlocks_correct:
  assumes "sorted points" "distinct points" "\<forall>p \<in> set points. lastp < p"
    and "copyBlocks points lastp toggle p1 p2 os = (lastq, toggle', os')"
    and "j < length (fst os)" "j < length (snd os)"
  shows "lastp \<le> lastq \<and> lastq \<in> insert lastp (set points) \<and> (\<forall>p \<in> set points. p \<le> lastq)
    \<and> toggle' = (toggle \<noteq> odd (length points))
    \<and> length (fst os') = length (fst os) \<and> length (snd os') = length (snd os)
    \<and> fst os' ! j = (if lastp \<le> j \<and> j < lastq
          then (if toggle \<noteq> geneOrigin points j then p2 ! j else p1 ! j) else fst os ! j)
    \<and> snd os' ! j = (if lastp \<le> j \<and> j < lastq
          then (if toggle \<noteq> geneOrigin points j then p1 ! j else p2 ! j) else snd os ! j)"
  using assms
proof (induction points arbitrary: lastp toggle os)
  case Nil
  then show ?case by (auto simp add: geneOrigin_def)
next
  case (Cons p ps)
  let ?os = "copyRange lastp p toggle p1 p2 os"
  have s: "sorted ps" "distinct ps" "\<forall>q \<in> set ps. p < q"
    using Cons.prems(1,2) by (auto simp add: order_less_le)
  have c: "copyBlocks ps p (\<not> toggle) p1 p2 ?os = (lastq, toggle', os')"
    using Cons.prems(4) by simp
  have l: "j < length (fst ?os)" "j < length (snd ?os)"
    using Cons.prems(5,6) by (simp_all add: copyRange_length)
  note IH = Cons.IH [OF s c l]
  have lp: "lastp < p" using Cons.prems(3) by simp
  have cnt_lt: "j < p \<Longrightarrow> filter (\<lambda>q. q \<le> j) (p # ps) = []"
    using s(3) by (auto simp add: filter_empty_conv)
  have cnt_ge: "p \<le> j \<Longrightarrow> length (filter (\<lambda>q. q \<le> j) (p # ps)) = Suc (length (filter (\<lambda>q. q \<le> j) ps))"
    by simp
  show ?case
    using IH lp cnt_lt cnt_ge copyRange_nth [OF Cons.prems(5,6), of lastp p toggle p1 p2]
    by (auto simp add: geneOrigin_def copyRange_length simp del: filter.simps)
qed

lemma uniform_int_distribution_range:
  "a \<le> b \<Longrightarrow> a \<le> uniform_int_distribution rnd k a b \<and> uniform_int_distribution rnd k a b \<le> b"
proof -
  assume "a \<le> b"
  have "rnd k mod (b - a + 1) < b - a + 1" by simp
  with \<open>a \<le> b\<close> show ?thesis unfolding uniform_int_distribution_def by linarith
qed

lemma drawPoints_props:
  assumes "drawPoints fuel rnd k numPoints points = Some (ps, k')"
    and "distinct points" "set points \<subseteq> {1..NUM_RULES - 1}" "length points \<le> numPoints"
  shows "distinct ps \<and> set ps \<subseteq> {1..NUM_RULES - 1} \<and> length ps = numPoints"
  using assms
proof (induction fuel arbitrary: k points)
  case 0
  then show ?case by (simp split: if_splits)
next
  case (Suc fuel)
  show ?case
  proof (cases "length points < numPoints")
    case False
    with Suc.prems show ?thesis by simp
  next
    case True
    let ?pt = "uniform_int_distribution rnd k 1 (NUM_RULES - 1)"
    let ?points = "if ?pt \<in> set points then points else points @ [?pt]"
    have r: "1 \<le> ?pt \<and> ?pt \<le> NUM_RULES - 1"
      by (rule uniform_int_distribution_range) (simp add: NUM_RULES_def)
    have d: "drawPoints fuel rnd (Suc k) numPoints ?points = Some (ps, k')"
      using Suc.prems(1) True unfolding drawPoints.simps Let_def by (simp only: if_True)
    have "distinct ?points" "set ?points \<subseteq> {1..NUM_RULES - 1}" "length ?points \<le> numPoints"
      using Suc.prems(2-4) True r by auto
    then show ?thesis
      using Suc.IH [OF d] by blast
  qed
qed

lemma cutPoints_props:
  assumes "cutPoints fuel rnd k = Some (cuts, k')"
  shows "sorted cuts \<and> distinct cuts \<and> set cuts \<subseteq> {1..NUM_RULES - 1}
     \<and> 1 \<le> length cuts \<and> length cuts \<le> NUM_RULES - 1"
proof -
  let ?n = "uniform_int_distribution rnd k 1 (NUM_RULES - 1)"
  obtain ps where d: "drawPoints fuel rnd (Suc k) ?n [] = Some (ps, k')" and c: "cuts = sort ps"
    using assms by (auto simp add: cutPoints_def Let_def split: option.splits)
  have r: "1 \<le> ?n \<and> ?n \<le> NUM_RULES - 1"
    by (rule uniform_int_distribution_range) (simp add: NUM_RULES_def)
  have "distinct ps \<and> set ps \<subseteq> {1..NUM_RULES - 1} \<and> length ps = ?n"
    using drawPoints_props [OF d] by simp
  then show ?thesis using c r by simp
qed

text \<open>
  Claim C8. For parents that carry \<open>NUM_RULES\<close> rules, whenever the drawing of the cut points comes
  to an end, \<open>crossover\<close> returns two children, and for every such outcome: the number of cut points
  lies in \<open>[1, NUM_RULES - 1]\<close>, the cut points are distinct positions in \<open>[1, NUM_RULES - 1]\<close> in
  ascending order, both children have \<open>NUM_RULES\<close> rules, and at every position the pair of child
  rules is the pair of parent rules at that position, in the same order or swapped: swapped exactly
  when an odd number of cut points lies at or before the position. So each child rule is the whole rule
  of one parent, and the origin alternates from one contiguous block to the next.
\<close>

theorem crossover_genes_from_parents:
  assumes len: "length (rules p1) = NUM_RULES" "length (rules p2) = NUM_RULES"
    and cp: "cutPoints fuel rnd k = Some (cuts, k')"
  shows "\<exists>c1 c2. crossover fuel p1 p2 o1 o2 rnd k = Some (c1, c2, k')
     \<and> sorted cuts \<and> distinct cuts \<and> set cuts \<subseteq> {1..NUM_RULES - 1}
     \<and> 1 \<le> length cuts \<and> length cuts \<le> NUM_RULES - 1
     \<and> length (rules c1) = NUM_RULES \<and> length (rules c2) = NUM_RULES
     \<and> (\<forall>i < NUM_RULES.
          (rules c1 ! i, rules c2 ! i) =
            (if geneOrigin cuts i then (rules p2 ! i, rules p1 ! i) else (rules p1 ! i, rules p2 ! i)))"
proof -
  let ?os0 = "(resize NUM_RULES zeroRule (rules o1), resize NUM_RULES zeroRule (rules o2))"
  obtain lastp toggle os1 where cb:
    "copyBlocks cuts 0 False (rules p1) (rules p2) ?os0 = (lastp, toggle, os1)"
    by (metis prod_cases3)
  let ?os2 = "copyRange lastp NUM_RULES toggle (rules p1) (rules p2) os1"
  let ?c1 = "o1\<lparr>rules := fst ?os2\<rparr>" and ?c2 = "o2\<lparr>rules := snd ?os2\<rparr>"
  have res: "crossover fuel p1 p2 o1 o2 rnd k = Some (?c1, ?c2, k')"
    using len cp cb by (simp add: crossover_def Let_def)
  note props = cutPoints_props [OF cp]
  have pos: "\<forall>p \<in> set cuts. 0 < p" using props by auto
  have len0: "length (fst ?os0) = NUM_RULES" "length (snd ?os0) = NUM_RULES"
    by (simp_all add: resize_def)
  have genes: "(fst ?os2 ! i, snd ?os2 ! i) =
      (if geneOrigin cuts i then (rules p2 ! i, rules p1 ! i) else (rules p1 ! i, rules p2 ! i))"
    if i: "i < NUM_RULES" for i
  proof -
    have i0: "i < length (fst ?os0)" "i < length (snd ?os0)" using i len0 by simp_all
    note B = copyBlocks_correct [OF _ _ pos cb i0]
    have B': "lastp \<in> insert 0 (set cuts)" "\<forall>p \<in> set cuts. p \<le> lastp"
      "toggle = odd (length cuts)"
      "length (fst os1) = NUM_RULES" "length (snd os1) = NUM_RULES"
      "fst os1 ! i = (if i < lastp then (if geneOrigin cuts i then rules p2 ! i else rules p1 ! i)
          else fst ?os0 ! i)"
      "snd os1 ! i = (if i < lastp then (if geneOrigin cuts i then rules p1 ! i else rules p2 ! i)
          else snd ?os0 ! i)"
      using B props len0 by simp_all
    have i1: "i < length (fst os1)" "i < length (snd os1)" using i B' by simp_all
    have all: "lastp \<le> i \<Longrightarrow> filter (\<lambda>p. p \<le> i) cuts = cuts"
      using B'(2) by (auto simp add: filter_id_conv)
    show ?thesis
      using copyRange_nth [OF i1, of lastp NUM_RULES toggle "rules p1" "rules p2"] B' i all
      by (auto simp add: geneOrigin_def)
  qed
  have "length (fst ?os2) = NUM_RULES" "length (snd ?os2) = NUM_RULES"
    using copyBlocks_length [OF cb] len0 by (simp_all add: copyRange_length)
  with res props genes show ?thesis by simp
qed

theorem crossover_genes_from_parents_witness:
  "\<exists>c1 c2. crossover 1 exampleParentA exampleParentB newIndividual newIndividual (\<lambda>_. 0) 0
          = Some (c1, c2, 2)
     \<and> length (rules c1) = 150 \<and> length (rules c2) = 150
     \<and> rules c1 ! 0 = exampleRule \<and> rules c2 ! 0 = zeroRule
     \<and> rules c1 ! 1 = zeroRule \<and> rules c2 ! 1 = exampleRule
     \<and> rules c1 ! 149 = zeroRule \<and> rules c2 ! 149 = exampleRule"
proof -
  have h1: "length (rules exampleParentA) = NUM_RULES"
    by (simp add: exampleParentA_def NUM_RULES_def)
  have h2: "length (rules exampleParentB) = NUM_RULES"
    by (simp add: exampleParentB_def NUM_RULES_def)
  have h3: "cutPoints 1 (\<lambda>_. 0) 0 = Some ([1], 2)"
    by (simp add: cutPoints_def uniform_int_distribution_def NUM_RULES_def)
  obtain c1 c2 where c:
    "crossover 1 exampleParentA exampleParentB newIndividual newIndividual (\<lambda>_. 0) 0 = Some (c1, c2, 2)"
    "length (rules c1) = NUM_RULES" "length (rules c2) = NUM_RULES"
    "\<forall>i < NUM_RULES. (rules c1 ! i, rules c2 ! i) =
        (if geneOrigin [1] i then (rules exampleParentB ! i, rules exampleParentA ! i)
         else (rules exampleParentA ! i, rules exampleParentB ! i))"
    using crossover_genes_from_parents [OF h1 h2 h3, of newIndividual newIndividual] by blast
  have "(rules c1 ! 0, rules c2 ! 0) = (exampleRule, zeroRule)"
    "(rules c1 ! 1, rules c2 ! 1) = (zeroRule, exampleRule)"
    "(rules c1 ! 149, rules c2 ! 149) = (zeroRule, exampleRule)"
    using c(4) by (simp_all add: NUM_RULES_def geneOrigin_def exampleParentA_def exampleParentB_def)
  with c(1-3) show ?thesis by (auto simp add: NUM_RULES_def)
qed

section \<open>Revealing cells\<close>

lemma set_coords: "set coords = {c. inBounds (fst c) (snd c)}"
proof -
  have "set coords = (\<Union>y\<in>{0..GRID_HEIGHT - 1}. (\<lambda>x. (x, y)) ` {0..GRID_WIDTH - 1})"
    by (simp add: coords_def)
  also have "\<dots> = {c. inBounds (fst c) (snd c)}"
    by (force simp add: inBounds_def image_iff)
  finally show ?thesis .
qed

lemma distinct_coords: "distinct coords"
  by (simp add: coords_def GRID_WIDTH_def GRID_HEIGHT_def upto.simps)

lemma length_coords: "length coords = 100"
  by (simp add: coords_def GRID_WIDTH_def GRID_HEIGHT_def length_concat comp_def sum_list_triv)

lemma cellAt_setCell:
  assumes "dimsOk g" "inBounds x y" "inBounds x' y'"
  shows "cellAt (setCell x y c g) x' y' = (if x' = x \<and> y' = y then c else cellAt g x' y')"
proof -
  have y: "nat y < length (grid g)" and y': "nat y' < length (grid g)"
    using assms by (auto simp add: dimsOk_def inBounds_def)
  have "length (grid g ! nat y) = nat GRID_WIDTH"
    using assms(1) y by (auto simp add: dimsOk_def)
  then have x: "nat x < length (grid g ! nat y)"
    using assms(2) by (auto simp add: inBounds_def)
  have eq: "nat x' = nat x \<longleftrightarrow> x' = x" "nat y' = nat y \<longleftrightarrow> y' = y"
    using assms(2,3) by (auto simp add: inBounds_def)
  show ?thesis
    using x y y' eq by (auto simp add: cellAt_def setCell_def nth_list_update)
qed

lemma dimsOk_setCell: "dimsOk g \<Longrightarrow> dimsOk (setCell x y c g)"
proof (cases "nat y < length (grid g)")
  case False
  then have "(grid g)[nat y := (grid g ! nat y)[nat x := c]] = grid g"
    by (simp add: list_update_beyond)
  moreover assume "dimsOk g"
  ultimately show ?thesis by (simp add: dimsOk_def setCell_def)
next
  case True
  assume d: "dimsOk g"
  let ?row = "(grid g ! nat y)[nat x := c]"
  have "grid g ! nat y \<in> set (grid g)" using True by simp
  then have r: "length ?row = nat GRID_WIDTH" using d by (simp add: dimsOk_def)
  have "set ((grid g)[nat y := ?row]) \<subseteq> insert ?row (set (grid g))"
    by (rule set_update_subset_insert)
  then have "\<forall>row \<in> set ((grid g)[nat y := ?row]). length row = nat GRID_WIDTH"
    using r d unfolding dimsOk_def by blast
  then show ?thesis using d by (simp add: dimsOk_def setCell_def)
qed

lemma flags_setCell [simp]:
  "gameOver (setCell x y c g) = gameOver g" "youWin (setCell x y c g) = youWin g"
  by (simp_all add: setCell_def)

lemma cellAt_flags [simp]:
  "cellAt (g\<lparr>gameOver := b\<rparr>) x y = cellAt g x y" "cellAt (g\<lparr>youWin := b\<rparr>) x y = cellAt g x y"
  by (simp_all add: cellAt_def)

lemma dimsOk_flags [simp]:
  "dimsOk (g\<lparr>gameOver := b\<rparr>) = dimsOk g" "dimsOk (g\<lparr>youWin := b\<rparr>) = dimsOk g"
  by (simp_all add: dimsOk_def)

lemma cellAt_checkWinCondition [simp]: "cellAt (checkWinCondition g) x y = cellAt g x y"
  by (simp add: checkWinCondition_def Let_def)

lemma dimsOk_checkWinCondition [simp]: "dimsOk (checkWinCondition g) = dimsOk g"
  by (simp add: checkWinCondition_def Let_def)

lemma gameOver_checkWinCondition [simp]: "gameOver (checkWinCondition g) = gameOver g"
  by (simp add: checkWinCondition_def Let_def)

lemma youWin_checkWinCondition:
  "youWin (checkWinCondition g) \<longleftrightarrow> youWin g \<or> int (revealedCount g) = GRID_WIDTH * GRID_HEIGHT - NUM_MINES"
  by (simp add: checkWinCondition_def Let_def revealedCount_def)

lemma length_filter_mono:
  "(\<And>x. x \<in> set xs \<Longrightarrow> P x \<Longrightarrow> Q x) \<Longrightarrow> length (filter P xs) \<le> length (filter Q xs)"
  by (induction xs) auto

lemma length_filter_strict:
  assumes "\<And>x. x \<in> set xs \<Longrightarrow> P x \<Longrightarrow> Q x" and "a \<in> set xs" "Q a" "\<not> P a"
  shows "length (filter P xs) < length (filter Q xs)"
  using assms
proof (induction xs)
  case Nil
  then show ?case by simp
next
  case (Cons x xs)
  have le: "length (filter P xs) \<le> length (filter Q xs)"
    using Cons.prems(1) by (intro length_filter_mono) auto
  show ?case
  proof (cases "a = x")
    case True
    then show ?thesis using le Cons.prems by simp
  next
    case False
    then have "a \<in> set xs" using Cons.prems(2) by simp
    then have "length (filter P xs) < length (filter Q xs)"
      using Cons.IH Cons.prems by simp
    then show ?thesis using Cons.prems(1) [of x] by auto
  qed
qed

lemma reveals_revealedCount: "reveals g g' \<Longrightarrow> revealedCount g \<le> revealedCount g'"
  unfolding revealedCount_def reveals_def
  by (intro length_filter_mono) (metis CellState.distinct(1))

lemma reveals_hiddenCount: "reveals g g' \<Longrightarrow> hiddenCount g' \<le> hiddenCount g"
  unfolding hiddenCount_def reveals_def
  by (intro length_filter_mono) (metis CellState.distinct(1))

lemma reveals_refl: "dimsOk g \<Longrightarrow> reveals g g"
  by (simp add: reveals_def)

lemma reveals_trans:
  assumes "reveals g g'" "reveals g' g''"
  shows "reveals g g''"
proof -
  have m: "revealedCount g \<le> revealedCount g'" "revealedCount g' \<le> revealedCount g''"
    using assms by (simp_all add: reveals_revealedCount)
  have cells: "\<forall>c \<in> set coords.
           isMine (cellAt g'' (fst c) (snd c)) = isMine (cellAt g (fst c) (snd c))
         \<and> neighboringMines (cellAt g'' (fst c) (snd c)) = neighboringMines (cellAt g (fst c) (snd c))
         \<and> (state (cellAt g'' (fst c) (snd c)) = state (cellAt g (fst c) (snd c))
            \<or> state (cellAt g (fst c) (snd c)) = HIDDEN \<and> state (cellAt g'' (fst c) (snd c)) = REVEALED)"
    using assms unfolding reveals_def by (metis CellState.distinct(1))
  have win: "youWin g'' \<longrightarrow> youWin g \<or> revealedCount g < winCount \<and> winCount \<le> revealedCount g''"
    using assms m unfolding reveals_def by (metis le_trans order_le_less_trans)
  show ?thesis
    using assms cells win unfolding reveals_def by blast
qed

lemma reveals_gameOver: "reveals g g' \<Longrightarrow> reveals g (g'\<lparr>gameOver := True\<rparr>)"
  by (simp add: reveals_def revealedCount_def)

lemma revealedCount_checkWinCondition [simp]: "revealedCount (checkWinCondition g) = revealedCount g"
  by (simp add: revealedCount_def)

lemma hiddenCount_checkWinCondition [simp]: "hiddenCount (checkWinCondition g) = hiddenCount g"
  by (simp add: hiddenCount_def)

lemma winCount_eq: "int n = GRID_WIDTH * GRID_HEIGHT - NUM_MINES \<longleftrightarrow> n = winCount"
  by (auto simp add: winCount_def GRID_WIDTH_def GRID_HEIGHT_def NUM_MINES_def)

lemma reveals_checkWinCondition:
  assumes "reveals g g'" "revealedCount g < revealedCount g'"
  shows "reveals g (checkWinCondition g')"
  using assms unfolding reveals_def
  by (auto simp add: youWin_checkWinCondition winCount_eq)

lemma inBounds_coords: "inBounds x y \<longleftrightarrow> (x, y) \<in> set coords"
  by (simp add: set_coords)

lemma reveal_step:
  assumes d: "dimsOk g" and b: "inBounds x y" and h: "state (cellAt g x y) = HIDDEN"
  defines "g1 \<equiv> setCell x y ((cellAt g x y)\<lparr>state := REVEALED\<rparr>) g"
  shows "reveals g g1" "hiddenCount g1 < hiddenCount g" "revealedCount g < revealedCount g1"
proof -
  have c: "cellAt g1 x' y' = (if x' = x \<and> y' = y then (cellAt g x y)\<lparr>state := REVEALED\<rparr> else cellAt g x' y')"
    if "inBounds x' y'" for x' y'
    unfolding g1_def using cellAt_setCell [OF d b that] .
  have d1: "dimsOk g1" unfolding g1_def using d by (rule dimsOk_setCell)
  have fl: "gameOver g1 = gameOver g" "youWin g1 = youWin g" by (simp_all add: g1_def)
  have mono: "revealedCount g \<le> revealedCount g1"
    unfolding revealedCount_def
    by (intro length_filter_mono) (auto simp add: c set_coords)
  show "reveals g g1"
    unfolding reveals_def using d1 h mono
    by (auto simp add: c set_coords fl)
  have xy: "(x, y) \<in> set coords" using b by (simp add: set_coords)
  show "hiddenCount g1 < hiddenCount g"
    unfolding hiddenCount_def
    by (rule length_filter_strict [where a = "(x, y)"])
       (use xy h b in \<open>auto simp add: c set_coords split: if_splits\<close>)
  show "revealedCount g < revealedCount g1"
    unfolding revealedCount_def
    by (rule length_filter_strict [where a = "(x, y)"])
       (use xy h b in \<open>auto simp add: c set_coords split: if_splits\<close>)
qed

lemma foldOption_reveals:
  assumes IH: "\<And>x y s. dimsOk s \<Longrightarrow> hiddenCount s < n
      \<Longrightarrow> \<exists>s'. revealCellDepth n x y s = Some s' \<and> reveals s s'"
    and "dimsOk s" "hiddenCount s < n"
  shows "\<exists>s'. foldOption (\<lambda>d s. revealCellDepth n (x + fst d) (y + snd d) s) ds s = Some s'
     \<and> reveals s s'"
  using assms(2,3)
proof (induction ds arbitrary: s)
  case Nil
  then show ?case by (simp add: reveals_refl)
next
  case (Cons d ds)
  obtain s1 where s1: "revealCellDepth n (x + fst d) (y + snd d) s = Some s1" "reveals s s1"
    using IH [OF Cons.prems] by blast
  have "dimsOk s1" using s1(2) by (simp add: reveals_def)
  moreover have "hiddenCount s1 < n"
    using reveals_hiddenCount [OF s1(2)] Cons.prems(2) by simp
  ultimately obtain s' where
    "foldOption (\<lambda>d s. revealCellDepth n (x + fst d) (y + snd d) s) ds s1 = Some s'" "reveals s1 s'"
    using Cons.IH by blast
  then show ?case using s1 by (auto intro: reveals_trans)
qed

lemma revealCellDepth_reveals:
  "dimsOk g \<Longrightarrow> hiddenCount g < n \<Longrightarrow> \<exists>g'. revealCellDepth n x y g = Some g' \<and> reveals g g'"
proof (induction n arbitrary: x y g)
  case 0
  then show ?case by simp
next
  case (Suc n)
  show ?case
  proof (cases "x < 0 \<or> x \<ge> GRID_WIDTH \<or> y < 0 \<or> y \<ge> GRID_HEIGHT \<or> state (cellAt g x y) \<noteq> HIDDEN")
    case True
    then show ?thesis using Suc.prems by (auto simp add: reveals_refl)
  next
    case False
    then have b: "inBounds x y" and h: "state (cellAt g x y) = HIDDEN"
      by (auto simp add: inBounds_def)
    define g1 where "g1 = setCell x y ((cellAt g x y)\<lparr>state := REVEALED\<rparr>) g"
    note st = reveal_step [OF Suc.prems(1) b h, folded g1_def]
    have d1: "dimsOk g1" using st(1) by (simp add: reveals_def)
    have h1: "hiddenCount g1 < n" using st(2) Suc.prems(2) by simp
    have unf: "revealCellDepth (Suc n) x y g =
        (if isMine (cellAt g1 x y) then Some (g1\<lparr>gameOver := True\<rparr>)
         else if neighboringMines (cellAt g1 x y) = 0 then
           map_option checkWinCondition
             (foldOption (\<lambda>d s. revealCellDepth n (x + fst d) (y + snd d) s) neighborOffsets g1)
         else Some (checkWinCondition g1))"
      using False by (simp add: g1_def Let_def)
    show ?thesis
    proof (cases "isMine (cellAt g1 x y)")
      case True
      then show ?thesis using unf reveals_gameOver [OF st(1)] by simp
    next
      case nm: False
      show ?thesis
      proof (cases "neighboringMines (cellAt g1 x y) = 0")
        case True
        obtain s' where s': "foldOption (\<lambda>d s. revealCellDepth n (x + fst d) (y + snd d) s) neighborOffsets g1 = Some s'"
          "reveals g1 s'"
          using foldOption_reveals [OF Suc.IH d1 h1] by blast
        have r: "reveals g s'" using st(1) s'(2) by (rule reveals_trans)
        have "revealedCount g < revealedCount s'"
          using st(3) reveals_revealedCount [OF s'(2)] by simp
        then have "reveals g (checkWinCondition s')" using r by (intro reveals_checkWinCondition)
        then show ?thesis using unf nm True s'(1) by simp
      next
        case False
        have "reveals g (checkWinCondition g1)"
          using st(1,3) by (intro reveals_checkWinCondition)
        then show ?thesis using unf nm False by simp
      qed
    qed
  qed
qed

lemma hiddenCount_le: "hiddenCount g \<le> 100"
  unfolding hiddenCount_def using length_filter_le [of _ coords] by (simp add: length_coords)

lemma revealCell_reveals:
  "dimsOk g \<Longrightarrow> \<exists>g'. revealCell x y g = Some g' \<and> reveals g g'"
  unfolding revealCell_def
  by (rule revealCellDepth_reveals)
     (use hiddenCount_le [of g] in \<open>simp_all add: GRID_WIDTH_def GRID_HEIGHT_def\<close>)

lemma reveals_cell:
  assumes "reveals g g'" "inBounds x y"
  shows "isMine (cellAt g' x y) = isMine (cellAt g x y)"
    and "neighboringMines (cellAt g' x y) = neighboringMines (cellAt g x y)"
    and "state (cellAt g' x y) = state (cellAt g x y)
       \<or> state (cellAt g x y) = HIDDEN \<and> state (cellAt g' x y) = REVEALED"
proof -
  have "(x, y) \<in> set coords" using assms(2) by (simp add: set_coords)
  then have "isMine (cellAt g' (fst (x, y)) (snd (x, y))) = isMine (cellAt g (fst (x, y)) (snd (x, y)))
         \<and> neighboringMines (cellAt g' (fst (x, y)) (snd (x, y))) = neighboringMines (cellAt g (fst (x, y)) (snd (x, y)))
         \<and> (state (cellAt g' (fst (x, y)) (snd (x, y))) = state (cellAt g (fst (x, y)) (snd (x, y)))
            \<or> state (cellAt g (fst (x, y)) (snd (x, y))) = HIDDEN \<and> state (cellAt g' (fst (x, y)) (snd (x, y))) = REVEALED)"
    using assms(1) unfolding reveals_def by blast
  then show "isMine (cellAt g' x y) = isMine (cellAt g x y)"
    and "neighboringMines (cellAt g' x y) = neighboringMines (cellAt g x y)"
    and "state (cellAt g' x y) = state (cellAt g x y)
       \<or> state (cellAt g x y) = HIDDEN \<and> state (cellAt g' x y) = REVEALED"
    by simp_all
qed

lemma mineNeighbors_reveals: "reveals g g' \<Longrightarrow> mineNeighbors g' x y = mineNeighbors g x y"
proof -
  assume r: "reveals g g'"
  have "(let nx = x + fst d; ny = y + snd d
         in nx \<ge> 0 \<and> nx < GRID_WIDTH \<and> ny \<ge> 0 \<and> ny < GRID_HEIGHT \<and> isMine (cellAt g' nx ny))
      = (let nx = x + fst d; ny = y + snd d
         in nx \<ge> 0 \<and> nx < GRID_WIDTH \<and> ny \<ge> 0 \<and> ny < GRID_HEIGHT \<and> isMine (cellAt g nx ny))" for d
  proof (cases "inBounds (x + fst d) (y + snd d)")
    case True
    then show ?thesis by (simp add: Let_def reveals_cell(1) [OF r])
  next
    case False
    then show ?thesis by (auto simp add: Let_def inBounds_def)
  qed
  then show ?thesis by (simp add: mineNeighbors_def)
qed

lemma countsOk_reveals: "reveals g g' \<Longrightarrow> countsOk g \<Longrightarrow> countsOk g'"
  unfolding countsOk_def
  by (simp add: mineNeighbors_reveals) (simp add: reveals_def)

lemma zero_no_mine_neighbor:
  assumes "mineNeighbors g x y = 0" "d \<in> set neighborOffsets" "inBounds (x + fst d) (y + snd d)"
  shows "\<not> isMine (cellAt g (x + fst d) (y + snd d))"
proof
  assume m: "isMine (cellAt g (x + fst d) (y + snd d))"
  let ?P = "\<lambda>d. let nx = x + fst d; ny = y + snd d
         in nx \<ge> 0 \<and> nx < GRID_WIDTH \<and> ny \<ge> 0 \<and> ny < GRID_HEIGHT \<and> isMine (cellAt g nx ny)"
  have "?P d" using m assms(3) by (simp add: Let_def inBounds_def)
  then have "filter ?P neighborOffsets \<noteq> []"
    using assms(2) unfolding filter_empty_conv by blast
  then show False using assms(1) unfolding mineNeighbors_def by simp
qed

lemma minesKept_refl: "minesKept g g"
  by (simp add: minesKept_def)

lemma minesKept_trans:
  "reveals g g' \<Longrightarrow> minesKept g g' \<Longrightarrow> minesKept g' g'' \<Longrightarrow> minesKept g g''"
  unfolding minesKept_def reveals_def by simp

lemma minesKept_checkWinCondition: "minesKept g g' \<Longrightarrow> minesKept g (checkWinCondition g')"
  by (simp add: minesKept_def)

lemma foldOption_minesKept:
  assumes IH: "\<And>x y s s'. dimsOk s \<Longrightarrow> countsOk s \<Longrightarrow> hiddenCount s < n
      \<Longrightarrow> revealCellDepth n x y s = Some s'
      \<Longrightarrow> (inBounds x y \<Longrightarrow> \<not> isMine (cellAt s x y)) \<Longrightarrow> minesKept s s'"
    and "dimsOk s" "countsOk s" "hiddenCount s < n"
    and "foldOption (\<lambda>d s. revealCellDepth n (x + fst d) (y + snd d) s) ds s = Some s'"
    and "\<forall>d \<in> set ds. inBounds (x + fst d) (y + snd d) \<longrightarrow> \<not> isMine (cellAt s (x + fst d) (y + snd d))"
  shows "minesKept s s'"
  using assms(2-)
proof (induction ds arbitrary: s)
  case Nil
  then show ?case by (simp add: minesKept_refl)
next
  case (Cons d ds)
  obtain s1 where s1: "revealCellDepth n (x + fst d) (y + snd d) s = Some s1" "reveals s s1"
    using revealCellDepth_reveals [OF Cons.prems(1,3)] by blast
  have "inBounds (x + fst d) (y + snd d) \<Longrightarrow> \<not> isMine (cellAt s (x + fst d) (y + snd d))"
    using Cons.prems(5) by simp
  then have k1: "minesKept s s1"
    by (rule IH [OF Cons.prems(1,2,3) s1(1)])
  have d1: "dimsOk s1" using s1(2) by (simp add: reveals_def)
  have c1: "countsOk s1" using s1(2) Cons.prems(2) by (rule countsOk_reveals)
  have h1: "hiddenCount s1 < n" using reveals_hiddenCount [OF s1(2)] Cons.prems(3) by simp
  have f1: "foldOption (\<lambda>d s. revealCellDepth n (x + fst d) (y + snd d) s) ds s1 = Some s'"
    using Cons.prems(4) s1(1) by simp
  have m1: "\<forall>d \<in> set ds. inBounds (x + fst d) (y + snd d) \<longrightarrow> \<not> isMine (cellAt s1 (x + fst d) (y + snd d))"
  proof (intro ballI impI)
    fix e assume e: "e \<in> set ds" "inBounds (x + fst e) (y + snd e)"
    then show "\<not> isMine (cellAt s1 (x + fst e) (y + snd e))"
      using Cons.prems(5) by (simp add: reveals_cell(1) [OF s1(2)])
  qed
  have "minesKept s1 s'" using Cons.IH [OF d1 c1 h1 f1 m1] .
  then show ?case by (rule minesKept_trans [OF s1(2) k1])
qed

lemma revealCellDepth_minesKept:
  "dimsOk g \<Longrightarrow> countsOk g \<Longrightarrow> hiddenCount g < n \<Longrightarrow> revealCellDepth n x y g = Some g'
   \<Longrightarrow> (inBounds x y \<Longrightarrow> \<not> isMine (cellAt g x y)) \<Longrightarrow> minesKept g g'"
proof (induction n arbitrary: x y g g')
  case 0
  then show ?case by simp
next
  case (Suc n)
  show ?case
  proof (cases "x < 0 \<or> x \<ge> GRID_WIDTH \<or> y < 0 \<or> y \<ge> GRID_HEIGHT \<or> state (cellAt g x y) \<noteq> HIDDEN")
    case True
    then show ?thesis using Suc.prems by (auto simp add: minesKept_refl)
  next
    case False
    then have b: "inBounds x y" and h: "state (cellAt g x y) = HIDDEN"
      by (auto simp add: inBounds_def)
    have nm: "\<not> isMine (cellAt g x y)" using Suc.prems(5) b by simp
    define g1 where "g1 = setCell x y ((cellAt g x y)\<lparr>state := REVEALED\<rparr>) g"
    note st = reveal_step [OF Suc.prems(1) b h, folded g1_def]
    have d1: "dimsOk g1" using st(1) by (simp add: reveals_def)
    have h1: "hiddenCount g1 < n" using st(2) Suc.prems(3) by simp
    have c1: "countsOk g1" using st(1) Suc.prems(2) by (rule countsOk_reveals)
    have cell1: "cellAt g1 x' y' = (if x' = x \<and> y' = y then (cellAt g x y)\<lparr>state := REVEALED\<rparr> else cellAt g x' y')"
      if "inBounds x' y'" for x' y'
      unfolding g1_def using cellAt_setCell [OF Suc.prems(1) b that] .
    have "gameOver g1 = gameOver g" by (simp add: g1_def)
    then have k1: "minesKept g g1"
      unfolding minesKept_def using nm by (auto simp add: cell1 set_coords)
    have nm1: "\<not> isMine (cellAt g1 x y)" using nm b by (simp add: cell1)
    have unf: "revealCellDepth (Suc n) x y g =
        (if neighboringMines (cellAt g1 x y) = 0 then
           map_option checkWinCondition
             (foldOption (\<lambda>d s. revealCellDepth n (x + fst d) (y + snd d) s) neighborOffsets g1)
         else Some (checkWinCondition g1))"
      using False nm1 by (simp add: g1_def Let_def)
    show ?thesis
    proof (cases "neighboringMines (cellAt g1 x y) = 0")
      case True
      obtain s' where s': "foldOption (\<lambda>d s. revealCellDepth n (x + fst d) (y + snd d) s) neighborOffsets g1 = Some s'"
        and g': "g' = checkWinCondition s'"
        using Suc.prems(4) unfolding unf using True by auto
      have "mineNeighbors g1 x y = 0"
        using c1 nm1 True b unfolding countsOk_def by (auto simp add: set_coords)
      then have safe: "\<forall>d \<in> set neighborOffsets. inBounds (x + fst d) (y + snd d)
          \<longrightarrow> \<not> isMine (cellAt g1 (x + fst d) (y + snd d))"
        using zero_no_mine_neighbor by blast
      have "minesKept g1 s'"
        by (rule foldOption_minesKept [OF Suc.IH d1 c1 h1 s' safe])
      then have "minesKept g s'" by (rule minesKept_trans [OF st(1) k1])
      then show ?thesis using g' by (simp add: minesKept_checkWinCondition)
    next
      case False
      then have "g' = checkWinCondition g1" using Suc.prems(4) unfolding unf by simp
      then show ?thesis using k1 by (simp add: minesKept_checkWinCondition)
    qed
  qed
qed

lemma dimsOk_newGame: "dimsOk newGame"
  by (simp add: dimsOk_def newGame_def)

lemma fold_install:
  assumes "dimsOk g" "set cs \<subseteq> set coords"
  shows "dimsOk (fold (\<lambda>c g'. setCell (fst c) (snd c) (K c) g') cs g)
    \<and> gameOver (fold (\<lambda>c g'. setCell (fst c) (snd c) (K c) g') cs g) = gameOver g
    \<and> youWin (fold (\<lambda>c g'. setCell (fst c) (snd c) (K c) g') cs g) = youWin g
    \<and> (\<forall>x y. inBounds x y \<longrightarrow>
          cellAt (fold (\<lambda>c g'. setCell (fst c) (snd c) (K c) g') cs g) x y
            = (if (x, y) \<in> set cs then K (x, y) else cellAt g x y))"
  using assms
proof (induction cs arbitrary: g)
  case Nil
  then show ?case by simp
next
  case (Cons c cs)
  let ?g1 = "setCell (fst c) (snd c) (K c) g"
  have b: "inBounds (fst c) (snd c)" using Cons.prems(2) by (simp add: set_coords)
  have d1: "dimsOk ?g1" using Cons.prems(1) by (rule dimsOk_setCell)
  have sub: "set cs \<subseteq> set coords" using Cons.prems(2) by simp
  have c1: "cellAt ?g1 x y = (if x = fst c \<and> y = snd c then K c else cellAt g x y)"
    if "inBounds x y" for x y
    using cellAt_setCell [OF Cons.prems(1) b that] .
  have eq: "(x, y) = c \<longleftrightarrow> x = fst c \<and> y = snd c" for x y by auto
  show ?case
    using Cons.IH [OF d1 sub] by (auto simp add: c1 eq)
qed

lemma installMines_cells:
  assumes "dimsOk g"
  shows "dimsOk (installMines mines g)"
    and "gameOver (installMines mines g) = gameOver g"
    and "youWin (installMines mines g) = youWin g"
    and "inBounds x y \<Longrightarrow> cellAt (installMines mines g) x y = newCell\<lparr>isMine := mines ! nat y ! nat x\<rparr>"
  using fold_install [OF assms subset_refl, of "\<lambda>c. newCell\<lparr>isMine := mines ! nat (snd c) ! nat (fst c)\<rparr>"]
  unfolding installMines_def by (simp_all add: set_coords)

lemma mineNeighbors_cong:
  assumes "\<And>x y. inBounds x y \<Longrightarrow> isMine (cellAt g' x y) = isMine (cellAt g x y)"
  shows "mineNeighbors g' x y = mineNeighbors g x y"
proof -
  have "(let nx = x + fst d; ny = y + snd d
         in nx \<ge> 0 \<and> nx < GRID_WIDTH \<and> ny \<ge> 0 \<and> ny < GRID_HEIGHT \<and> isMine (cellAt g' nx ny))
      = (let nx = x + fst d; ny = y + snd d
         in nx \<ge> 0 \<and> nx < GRID_WIDTH \<and> ny \<ge> 0 \<and> ny < GRID_HEIGHT \<and> isMine (cellAt g nx ny))" for d
    using assms [of "x + fst d" "y + snd d"] by (auto simp add: Let_def inBounds_def)
  then show ?thesis by (simp add: mineNeighbors_def)
qed

lemma fold_numbers:
  assumes "dimsOk g" "set cs \<subseteq> set coords"
  shows "dimsOk (fold numberStep cs g)
    \<and> gameOver (fold numberStep cs g) = gameOver g
    \<and> youWin (fold numberStep cs g) = youWin g
    \<and> (\<forall>x y. inBounds x y \<longrightarrow>
          cellAt (fold numberStep cs g) x y
            = (if (x, y) \<in> set cs \<and> \<not> isMine (cellAt g x y)
               then (cellAt g x y)\<lparr>neighboringMines := mineNeighbors g x y\<rparr> else cellAt g x y))"
  using assms
proof (induction cs arbitrary: g)
  case Nil
  then show ?case by simp
next
  case (Cons c cs)
  let ?g1 = "numberStep c g"
  have b: "inBounds (fst c) (snd c)" using Cons.prems(2) by (simp add: set_coords)
  have d1: "dimsOk ?g1" using Cons.prems(1) by (simp add: numberStep_def dimsOk_setCell)
  have sub: "set cs \<subseteq> set coords" using Cons.prems(2) by simp
  have c1: "cellAt ?g1 x y = (if x = fst c \<and> y = snd c \<and> \<not> isMine (cellAt g x y)
      then (cellAt g x y)\<lparr>neighboringMines := mineNeighbors g x y\<rparr> else cellAt g x y)"
    if "inBounds x y" for x y
    using cellAt_setCell [OF Cons.prems(1) b that] by (auto simp add: numberStep_def)
  have fl: "gameOver ?g1 = gameOver g" "youWin ?g1 = youWin g"
    by (simp_all add: numberStep_def)
  have m1: "mineNeighbors ?g1 x y = mineNeighbors g x y" for x y
    by (rule mineNeighbors_cong) (simp add: c1)
  have eq: "(x, y) = c \<longleftrightarrow> x = fst c \<and> y = snd c" for x y by auto
  show ?case
    using Cons.IH [OF d1 sub] by (auto simp add: c1 eq fl m1)
qed

lemma computeNumbers_cells:
  assumes "dimsOk g"
  shows "dimsOk (computeNumbers g)"
    and "gameOver (computeNumbers g) = gameOver g"
    and "youWin (computeNumbers g) = youWin g"
    and "inBounds x y \<Longrightarrow> cellAt (computeNumbers g) x y
       = (if \<not> isMine (cellAt g x y)
          then (cellAt g x y)\<lparr>neighboringMines := mineNeighbors g x y\<rparr> else cellAt g x y)"
proof -
  have "computeNumbers g = fold numberStep coords g"
    by (simp add: computeNumbers_def)
  then show "dimsOk (computeNumbers g)"
    and "gameOver (computeNumbers g) = gameOver g"
    and "youWin (computeNumbers g) = youWin g"
    and "inBounds x y \<Longrightarrow> cellAt (computeNumbers g) x y
       = (if \<not> isMine (cellAt g x y)
          then (cellAt g x y)\<lparr>neighboringMines := mineNeighbors g x y\<rparr> else cellAt g x y)"
    using fold_numbers [OF assms subset_refl] by (simp_all add: set_coords)
qed

lemma freshBoard_props:
  assumes "dimsOk g"
  shows "dimsOk (freshBoard mines g)" "countsOk (freshBoard mines g)"
    "\<not> gameOver (freshBoard mines g)" "\<not> youWin (freshBoard mines g)"
    "inBounds x y \<Longrightarrow> state (cellAt (freshBoard mines g) x y) = HIDDEN"
    "inBounds x y \<Longrightarrow> isMine (cellAt (freshBoard mines g) x y) = mines ! nat y ! nat x"
proof -
  let ?g0 = "g\<lparr>gameOver := False, youWin := False\<rparr>"
  let ?g1 = "installMines mines ?g0"
  have d0: "dimsOk ?g0" using assms by simp
  note I = installMines_cells [OF d0, where mines = mines]
  note C = computeNumbers_cells [OF I(1)]
  show "dimsOk (freshBoard mines g)" unfolding freshBoard_def by (rule C(1))
  show "\<not> gameOver (freshBoard mines g)" "\<not> youWin (freshBoard mines g)"
    unfolding freshBoard_def by (simp_all add: C I)
  have cell: "inBounds x y \<Longrightarrow> cellAt (freshBoard mines g) x y
       = (if \<not> mines ! nat y ! nat x
          then newCell\<lparr>isMine := False, neighboringMines := mineNeighbors ?g1 x y\<rparr>
          else newCell\<lparr>isMine := True\<rparr>)" for x y
    unfolding freshBoard_def by (simp add: C(4) I(4))
  show "inBounds x y \<Longrightarrow> state (cellAt (freshBoard mines g) x y) = HIDDEN"
    by (simp add: cell newCell_def)
  show m: "inBounds x y \<Longrightarrow> isMine (cellAt (freshBoard mines g) x y) = mines ! nat y ! nat x" for x y
    by (simp add: cell newCell_def)
  have mn: "mineNeighbors (freshBoard mines g) x y = mineNeighbors ?g1 x y" for x y
    by (rule mineNeighbors_cong) (simp add: m I(4))
  show "countsOk (freshBoard mines g)"
    unfolding countsOk_def by (auto simp add: set_coords cell mn)
qed

text \<open>
  Claim C9. On a board of the right dimensions whose numbers agree with its mines, \<open>revealCell\<close>
  returns, and the board is lost afterwards exactly when it was lost before or the cell at the
  target is on the board, hidden and a mine. Revealing a cell that is not a mine never marks the
  board lost: the recursion only goes on from cells whose number is 0, and none of their
  neighbours is a mine.
\<close>

theorem revealCell_lost_only_on_mine:
  assumes "dimsOk g" "countsOk g"
  shows "\<exists>g'. revealCell x y g = Some g'
     \<and> (gameOver g' \<longleftrightarrow>
          gameOver g \<or> inBounds x y \<and> state (cellAt g x y) = HIDDEN \<and> isMine (cellAt g x y))"
proof -
  obtain g' where g': "revealCell x y g = Some g'" "reveals g g'"
    using revealCell_reveals [OF assms(1)] by blast
  let ?n = "nat (GRID_WIDTH * GRID_HEIGHT)"
  have h: "hiddenCount g < Suc ?n"
    using hiddenCount_le [of g] by (simp add: GRID_WIDTH_def GRID_HEIGHT_def)
  have r: "revealCellDepth (Suc ?n) x y g = Some g'" using g'(1) by (simp add: revealCell_def)
  show ?thesis
  proof (cases "inBounds x y \<and> state (cellAt g x y) = HIDDEN \<and> isMine (cellAt g x y)")
    case True
    then have "isMine (cellAt (setCell x y ((cellAt g x y)\<lparr>state := REVEALED\<rparr>) g) x y)"
      using cellAt_setCell [OF assms(1), of x y x y] by simp
    then have "g' = (setCell x y ((cellAt g x y)\<lparr>state := REVEALED\<rparr>) g)\<lparr>gameOver := True\<rparr>"
      using r True by (simp add: inBounds_def Let_def)
    then show ?thesis using g'(1) True by simp
  next
    case False
    have "gameOver g' = gameOver g"
    proof (cases "inBounds x y \<and> state (cellAt g x y) = HIDDEN")
      case True
      then have "inBounds x y \<Longrightarrow> \<not> isMine (cellAt g x y)" using False by simp
      then have "minesKept g g'"
        by (rule revealCellDepth_minesKept [OF assms h r])
      then show ?thesis by (simp add: minesKept_def)
    next
      case False
      then have "g' = g" using r by (auto simp add: inBounds_def)
      then show ?thesis by simp
    qed
    then show ?thesis using g'(1) False by blast
  qed
qed

lemma dimsOk_exampleBoard: "dimsOk exampleBoard"
  unfolding exampleBoard_def by (rule freshBoard_props(1) [OF dimsOk_newGame])

lemma countsOk_exampleBoard: "countsOk exampleBoard"
  unfolding exampleBoard_def by (rule freshBoard_props(2) [OF dimsOk_newGame])

theorem revealCell_lost_only_on_mine_witness:
  "(\<exists>g'. revealCell 0 0 exampleBoard = Some g' \<and> gameOver g' = False)
   \<and> (\<exists>g'. revealCell 1 1 exampleBoard = Some g' \<and> gameOver g' = True)"
proof -
  have b: "inBounds 0 0" "inBounds 1 1"
    by (simp_all add: inBounds_def GRID_WIDTH_def GRID_HEIGHT_def)
  have m: "isMine (cellAt exampleBoard 0 0) = False" "isMine (cellAt exampleBoard 1 1) = True"
    "state (cellAt exampleBoard 1 1) = HIDDEN" "gameOver exampleBoard = False"
    unfolding exampleBoard_def
    using freshBoard_props(3,5,6) [OF dimsOk_newGame, where mines = "mineGridOf exampleMines"] b
    by (simp_all add: mineGridOf_def exampleMines_def GRID_WIDTH_def GRID_HEIGHT_def)
  show ?thesis
    using revealCell_lost_only_on_mine [OF dimsOk_exampleBoard countsOk_exampleBoard, of 0 0]
      revealCell_lost_only_on_mine [OF dimsOk_exampleBoard countsOk_exampleBoard, of 1 1] b m
    by simp
qed

end
